theory Spec2Isabelle
  imports Complex_Main "HOL-Library.Log_Nat"
begin

section \<open>JavaScript values used by the page\<close>

text \<open>
  A JavaScript \<^verbatim>\<open>number\<close> is a double: \<^verbatim>\<open>NaN\<close> or a proper value. Times are
  doubles that hold whole seconds or milliseconds (\<open>int number\<close>); prices are
  \<open>real number\<close>. The page only compares prices and takes their maximum and minimum,
  so the order of the reals is all that is used of them. On times the page divides,
  multiplies and subtracts, and each of these operations rounds its exact result to the
  nearest double.
\<close>

datatype 'a number = NaN | Num 'a

subsection \<open>Rounding to the nearest double\<close>

text \<open>
  \<open>round_half_even y\<close> is the integer nearest to \<open>y\<close>, the even one of the two when
  \<open>y\<close> lies halfway. For \<open>x > 0\<close>, \<open>exponent x\<close> is the \<open>e\<close> with
  \<open>2 ^ e \<le> x < 2 ^ (e + 1)\<close>. A double has 53 significant bits, so around \<open>x\<close> the
  doubles are the multiples of \<open>2 ^ (e - 52)\<close>, and \<open>double x\<close> is the one nearest to
  \<open>x\<close>. The range of the exponent (overflow to infinity from \<open>2 ^ 1024\<close>, subnormal
  numbers below \<open>2 ^ - 1022\<close>) is not modelled. \<open>dbl n\<close> is the double nearest to the
  integer \<open>n\<close>, which is an integer again.

  The exponent is computed from the number of binary digits (\<open>bitlen\<close>) of the integer
  part of \<open>x\<close>, or of \<open>1 / x\<close> rounded up when \<open>x < 1\<close>. That it is the exponent
  described here, and that \<open>dbl\<close> loses nothing, is proved below (\<open>exponent_lower\<close>,
  \<open>exponent_upper\<close>, \<open>double_of_int_integral\<close>). An integer that is not a double is
  not the value of any number; the theorems below that bound their integers by
  \<open>2 ^ 53\<close> speak of doubles only.
\<close>

definition round_half_even :: "real \<Rightarrow> int" where
  "round_half_even y =
     (let f = \<lfloor>y\<rfloor>; d = y - of_int f
      in if d < 1 / 2 then f else if 1 / 2 < d then f + 1 else if even f then f else f + 1)"

definition exponent :: "real \<Rightarrow> int" where
  "exponent x = (if 1 \<le> x then bitlen \<lfloor>x\<rfloor> - 1 else - bitlen (\<lceil>1 / x\<rceil> - 1))"

definition double :: "real \<Rightarrow> real" where
  "double x =
     (if x = 0 then 0
      else (let u = 2 powi (exponent \<bar>x\<bar> - 52)
            in of_int (round_half_even (x / u)) * u))"

definition dbl :: "int \<Rightarrow> int" where
  "dbl n = \<lfloor>double (of_int n)\<rfloor>"

text \<open>\<^verbatim>\<open>a - b\<close> and \<^verbatim>\<open>a * b\<close> on numbers that hold integers.\<close>

fun num_sub :: "int number \<Rightarrow> int number \<Rightarrow> int number" where
  "num_sub (Num a) (Num b) = Num (dbl (a - b))"
| "num_sub _ _ = NaN"

definition int_mul :: "int \<Rightarrow> int \<Rightarrow> int" where
  "int_mul a b = dbl (a * b)"

text \<open>\<^verbatim>\<open>a === b\<close> on numbers: \<^verbatim>\<open>NaN\<close> is equal to nothing, itself included.\<close>

fun strict_eq :: "'a number \<Rightarrow> 'a number \<Rightarrow> bool" where
  "strict_eq (Num a) (Num b) = (a = b)"
| "strict_eq _ _ = False"

text \<open>\<^verbatim>\<open>a >= b\<close> on numbers: false as soon as one side is \<^verbatim>\<open>NaN\<close>.\<close>

fun num_ge :: "real number \<Rightarrow> real number \<Rightarrow> bool" where
  "num_ge (Num a) (Num b) = (b \<le> a)"
| "num_ge _ _ = False"

text \<open>\<^verbatim>\<open>Math.floor(x / d)\<close> for an integral \<open>x\<close> that may be \<^verbatim>\<open>NaN\<close>.\<close>

fun Math_floor_div :: "int number \<Rightarrow> int \<Rightarrow> int number" where
  "Math_floor_div (Num a) d = Num \<lfloor>double (real_of_int a / real_of_int d)\<rfloor>"
| "Math_floor_div NaN d = NaN"

text \<open>
  The values that reach \<^verbatim>\<open>setErrorMessage\<close>: the upstream \<^verbatim>\<open>message\<close> and
  \<^verbatim>\<open>code\<close> are strings or numbers. \<open>truthy\<close> is JavaScript's truthiness, which
  decides \<^verbatim>\<open>a || b\<close>.
\<close>

datatype jsvalue = Str string | Number int

fun truthy :: "jsvalue option \<Rightarrow> bool" where
  "truthy None = False"
| "truthy (Some (Str s)) = (s \<noteq> [])"
| "truthy (Some (Number n)) = (n \<noteq> 0)"

definition js_or :: "jsvalue option \<Rightarrow> jsvalue option \<Rightarrow> jsvalue option" where
  "js_or a b = (if truthy a then a else b)"

section \<open>The runtime the page calls into\<close>

text \<open>
  \<^verbatim>\<open>Date.parse\<close>, \<^verbatim>\<open>parseFloat\<close> and \<^verbatim>\<open>new Date().getTimezoneOffset()\<close> are
  built-ins of the JavaScript engine. They are parameters of the model: every theorem
  below holds for all of them. \<open>Date_parse\<close> returns milliseconds or \<^verbatim>\<open>NaN\<close>,
  \<open>parseFloat\<close> a value or \<^verbatim>\<open>NaN\<close>, \<open>getTimezoneOffset\<close> whole minutes. One
  offset is used for all the calls made while one handler runs.

  The order \<^verbatim>\<open>Array.prototype.sort\<close> produces when its comparator returns \<^verbatim>\<open>NaN\<close>
  is left to the engine too. \<open>sort_inconsistent\<close> is the engine's choice: from the
  table of the comparator's results on all pairs of elements it gives the indices of the
  elements in the order of the result.
\<close>

record runtime =
  Date_parse :: "string \<Rightarrow> int number"
  parseFloat :: "string \<Rightarrow> real number"
  getTimezoneOffset :: int
  sort_inconsistent :: "int number list list \<Rightarrow> nat list"

section \<open>Data of the page\<close>

record TwelveDataCandle =
  td_datetime :: string
  td_open :: string
  td_high :: string
  td_low :: string
  td_close :: string
  td_volume :: string

record PriceEvent =
  ev_event :: string
  ev_symbol :: string
  ev_currency :: string
  ev_exchange :: string
  ev_type :: string
  ev_timestamp :: int
  ev_price :: real

record CandleAggregator =
  agg_timestamp :: int
  agg_open :: real
  agg_high :: real
  agg_low :: real
  agg_close :: real
  agg_lastUpdate :: int

text \<open>The chart library's \<^verbatim>\<open>CandlestickData\<close> and \<^verbatim>\<open>HistogramData\<close>.\<close>

record CandlestickData =
  cd_time :: "int number"
  cd_open :: "real number"
  cd_high :: "real number"
  cd_low :: "real number"
  cd_close :: "real number"

record HistogramData =
  hd_time :: "int number"
  hd_value :: "real number"
  hd_color :: string

text \<open>The body of the historical response: \<^verbatim>\<open>values\<close>, \<^verbatim>\<open>message\<close>, \<^verbatim>\<open>code\<close>,
  each possibly absent.\<close>

record response =
  rs_values :: "TwelveDataCandle list option"
  rs_message :: "jsvalue option"
  rs_code :: "jsvalue option"

text \<open>
  What \<^verbatim>\<open>await fetch(...)\<close> followed by \<^verbatim>\<open>await response.json()\<close> gives: a thrown
  value (an \<^verbatim>\<open>Error\<close> with its message, or something else) or the decoded body.
\<close>

datatype fetch_outcome = Rejected "string option" | Resolved response

text \<open>Calls made on the two chart series, in order.\<close>

datatype sink_call =
  SetData "CandlestickData list"
| Update CandlestickData
| VolumeSetData "HistogramData list"

text \<open>
  The component's state: the React state variables, the ref holding the in-progress
  candle, the data held by the two chart series, and the log of calls made on them.
\<close>

record page_state =
  currentCandleRef :: "CandleAggregator option"
  currentPrice :: "real number option"
  isHistoricalLoaded :: bool
  status :: string
  errorMessage :: "jsvalue option"
  candleSeries :: "CandlestickData list"
  volumeSeries :: "HistogramData list"
  sinkCalls :: "sink_call list"

section \<open>Time bucketing\<close>

definition convertToLocalTime :: "runtime \<Rightarrow> int number \<Rightarrow> int number" where
  "convertToLocalTime rt utcTimestamp =
     (let timezoneOffsetSeconds = int_mul (getTimezoneOffset rt) 60
      in num_sub utcTimestamp (Num timezoneOffsetSeconds))"

text \<open>\<^verbatim>\<open>CANDLE_INTERVAL\<close> is a constant of the component; the bucketing function and
  the message handler take it as their first argument.\<close>

definition CANDLE_INTERVAL :: int where
  "CANDLE_INTERVAL = 60"

definition getCandleTimestamp :: "int \<Rightarrow> int \<Rightarrow> int" where
  "getCandleTimestamp interval timestamp =
     int_mul \<lfloor>double (real_of_int timestamp / real_of_int interval)\<rfloor> interval"

section \<open>Array operations\<close>

text \<open>
  \<^verbatim>\<open>Array.prototype.sort\<close> with a comparator is a stable sort. When no result of the
  comparator on the array is \<^verbatim>\<open>NaN\<close>, the comparator of the page (a difference of
  times) is a consistent order, every stable sort gives the same array, and the model
  computes it by a stable insertion sort. When some result is \<^verbatim>\<open>NaN\<close> the order is
  the engine's: the elements are taken in the order \<open>sort_inconsistent\<close> gives.
\<close>

fun sort_order :: "int number \<Rightarrow> int" where
  "sort_order NaN = 0"
| "sort_order (Num d) = d"

fun insert_sorted :: "('a \<Rightarrow> 'a \<Rightarrow> int number) \<Rightarrow> 'a \<Rightarrow> 'a list \<Rightarrow> 'a list" where
  "insert_sorted cmp x [] = [x]"
| "insert_sorted cmp x (y # ys) =
     (if sort_order (cmp x y) \<le> 0 then x # y # ys else y # insert_sorted cmp x ys)"

definition Array_sort ::
  "runtime \<Rightarrow> ('a \<Rightarrow> 'a \<Rightarrow> int number) \<Rightarrow> 'a list \<Rightarrow> 'a list" where
  "Array_sort rt cmp xs =
     (if list_all (\<lambda>a. list_all (\<lambda>b. cmp a b \<noteq> NaN) xs) xs
      then foldr (insert_sorted cmp) xs []
      else map (\<lambda>i. xs ! i) (sort_inconsistent rt (map (\<lambda>a. map (cmp a) xs) xs)))"

text \<open>\<^verbatim>\<open>findIndex\<close>: the index of the first element satisfying the predicate, or \<open>-1\<close>.\<close>

definition findIndex :: "('a \<Rightarrow> bool) \<Rightarrow> 'a list \<Rightarrow> int" where
  "findIndex P xs =
     (if list_ex P xs then int (length (takeWhile (\<lambda>x. \<not> P x) xs)) else - 1)"

text \<open>\<^verbatim>\<open>filter((item, index, self) => ...)\<close>.\<close>

definition Array_filter :: "('a \<Rightarrow> int \<Rightarrow> 'a list \<Rightarrow> bool) \<Rightarrow> 'a list \<Rightarrow> 'a list" where
  "Array_filter f self =
     map fst (filter (\<lambda>(item, index). f item index self)
                (zip self (map int [0..<length self])))"

section \<open>Historical load\<close>

definition toCandle :: "runtime \<Rightarrow> TwelveDataCandle \<Rightarrow> CandlestickData" where
  "toCandle rt v =
     (let utcTimestamp = Math_floor_div (Date_parse rt (td_datetime v @ ''Z'')) 1000
      in \<lparr>cd_time = convertToLocalTime rt utcTimestamp,
          cd_open = parseFloat rt (td_open v),
          cd_high = parseFloat rt (td_high v),
          cd_low = parseFloat rt (td_low v),
          cd_close = parseFloat rt (td_close v)\<rparr>)"

definition toVolume :: "runtime \<Rightarrow> TwelveDataCandle \<Rightarrow> HistogramData" where
  "toVolume rt v =
     (let utcTimestamp = Math_floor_div (Date_parse rt (td_datetime v @ ''Z'')) 1000;
          open = parseFloat rt (td_open v);
          close = parseFloat rt (td_close v)
      in \<lparr>hd_time = convertToLocalTime rt utcTimestamp,
          hd_value = parseFloat rt (td_volume v),
          hd_color = (if num_ge close open then ''rgba(38, 166, 154, 0.5)''
                      else ''rgba(239, 83, 80, 0.5)'')\<rparr>)"

text \<open>The sort by time followed by the filter that keeps an element when it is the
  first one of the array with its time; the page does this to the candles and to the
  volumes.\<close>

definition sortByTime :: "runtime \<Rightarrow> ('a \<Rightarrow> int number) \<Rightarrow> 'a list \<Rightarrow> 'a list" where
  "sortByTime rt tm xs = Array_sort rt (\<lambda>a b. num_sub (tm a) (tm b)) xs"

definition keepFirstByTime :: "('a \<Rightarrow> int number) \<Rightarrow> 'a list \<Rightarrow> 'a list" where
  "keepFirstByTime tm xs =
     Array_filter (\<lambda>item index self.
        index = findIndex (\<lambda>t. strict_eq (tm t) (tm item)) self) xs"

definition normalizedCandles :: "runtime \<Rightarrow> TwelveDataCandle list \<Rightarrow> CandlestickData list" where
  "normalizedCandles rt vs =
     keepFirstByTime cd_time (sortByTime rt cd_time (map (toCandle rt) vs))"

definition normalizedVolumes :: "runtime \<Rightarrow> TwelveDataCandle list \<Rightarrow> HistogramData list" where
  "normalizedVolumes rt vs =
     keepFirstByTime hd_time (sortByTime rt hd_time (map (toVolume rt) vs))"

text \<open>
  Modelled from the spec: the Series Sink's \<^verbatim>\<open>replaceAll\<close> (section 4.4), which
  stands for the chart library's \<^verbatim>\<open>setData\<close>: the series becomes the given sequence.
  The contract has no failure; what a library build does that checks its argument and
  throws is outside it.
\<close>

definition candleSeriesRef_setData :: "CandlestickData list \<Rightarrow> page_state \<Rightarrow> page_state" where
  "candleSeriesRef_setData cs st =
     st\<lparr>candleSeries := cs, sinkCalls := sinkCalls st @ [SetData cs]\<rparr>"

text \<open>
  \<^verbatim>\<open>loadHistoricalData\<close>. The volumes are computed, sorted and filtered, and the call
  \<^verbatim>\<open>volumeSeries.setData(volumes)\<close> is commented out in the source, so the volumes are
  bound and not used. The \<^verbatim>\<open>catch\<close> branch is reached by a rejected fetch or JSON
  decoding; nothing the page itself does with a decoded body throws.
\<close>

definition loadHistoricalData :: "runtime \<Rightarrow> fetch_outcome \<Rightarrow> page_state \<Rightarrow> page_state" where
  "loadHistoricalData rt outcome st0 =
     (let st = st0\<lparr>status := ''Loading historical data...''\<rparr> in
      case outcome of
        Rejected err \<Rightarrow>
          st\<lparr>status := ''Error'',
             errorMessage := Some (Str (case err of Some m \<Rightarrow> m | None \<Rightarrow> ''Network error''))\<rparr>
      | Resolved data \<Rightarrow>
          (if (case rs_values data of None \<Rightarrow> True | Some vs \<Rightarrow> length vs = 0) then
             (let errorMsg = js_or (js_or (rs_message data) (rs_code data))
                                   (Some (Str ''No data available''))
              in st\<lparr>status := ''Error'', errorMessage := errorMsg\<rparr>)
           else
             (let vs = the (rs_values data);
                  st1 = st\<lparr>errorMessage := None\<rparr>;
                  candles = normalizedCandles rt vs;
                  volumes = normalizedVolumes rt vs;
                  st2 = candleSeriesRef_setData candles st1;
                  st3 = st2\<lparr>isHistoricalLoaded := True, status := ''Connecting to live data...''\<rparr>
              in if length candles > 0
                 then st3\<lparr>currentPrice := Some (cd_close (last candles))\<rparr>
                 else st3)))"

section \<open>Live feed\<close>

text \<open>
  Modelled from the spec: the Series Sink's \<^verbatim>\<open>upsertLast\<close> (section 4.4), which stands
  for the chart library's \<^verbatim>\<open>update\<close>: when the series is not empty and its last entry
  has the time of the given candle, that entry is overwritten; otherwise the candle is
  appended.
\<close>

definition upsertLast :: "CandlestickData \<Rightarrow> CandlestickData list \<Rightarrow> CandlestickData list" where
  "upsertLast c series =
     (if series \<noteq> [] \<and> strict_eq (cd_time (last series)) (cd_time c)
      then butlast series @ [c] else series @ [c])"

definition candleSeriesRef_update :: "CandlestickData \<Rightarrow> page_state \<Rightarrow> page_state" where
  "candleSeriesRef_update c st =
     st\<lparr>candleSeries := upsertLast c (candleSeries st), sinkCalls := sinkCalls st @ [Update c]\<rparr>"

text \<open>
  \<^verbatim>\<open>ws.onmessage\<close>, after \<^verbatim>\<open>JSON.parse\<close>. A price decoded from JSON is never
  \<^verbatim>\<open>NaN\<close>, so the in-progress candle holds reals. The handler is installed only
  when the candle series reference is set, so \<^verbatim>\<open>candleSeriesRef.current?.update\<close>
  is a call.
\<close>

definition onmessage :: "int \<Rightarrow> runtime \<Rightarrow> page_state \<Rightarrow> PriceEvent \<Rightarrow> page_state" where
  "onmessage interval rt st0 data =
     (if ev_event data = ''price'' \<and> ev_symbol data = ''BTC/USD'' then
        (let price = ev_price data;
             timestamp = ev_timestamp data;
             candleTime = getCandleTimestamp interval timestamp;
             st = st0\<lparr>currentPrice := Some (Num price)\<rparr>;
             cur =
               (case currentCandleRef st of
                  None \<Rightarrow>
                    \<lparr>agg_timestamp = candleTime, agg_open = price, agg_high = price,
                     agg_low = price, agg_close = price, agg_lastUpdate = timestamp\<rparr>
                | Some c \<Rightarrow>
                    (if agg_timestamp c \<noteq> candleTime then
                       \<lparr>agg_timestamp = candleTime, agg_open = price, agg_high = price,
                        agg_low = price, agg_close = price, agg_lastUpdate = timestamp\<rparr>
                     else
                       c\<lparr>agg_high := max (agg_high c) price,
                         agg_low := min (agg_low c) price,
                         agg_close := price,
                         agg_lastUpdate := timestamp\<rparr>));
             candleData =
               \<lparr>cd_time = convertToLocalTime rt (Num candleTime),
                cd_open = Num (agg_open cur),
                cd_high = Num (agg_high cur),
                cd_low = Num (agg_low cur),
                cd_close = Num (agg_close cur)\<rparr>
         in candleSeriesRef_update candleData (st\<lparr>currentCandleRef := Some cur\<rparr>))
      else st0)"

text \<open>A sequence of feed events, each handled to completion before the next, each with
  the runtime as it is when the event arrives.\<close>

fun feed :: "int \<Rightarrow> page_state \<Rightarrow> (runtime \<times> PriceEvent) list \<Rightarrow> page_state" where
  "feed interval st [] = st"
| "feed interval st ((rt, data) # rest) = feed interval (onmessage interval rt st data) rest"

section \<open>Initial state, invariant and sample inputs\<close>

text \<open>The state of the component when it mounts.\<close>

definition initial_state :: page_state where
  "initial_state =
     \<lparr>currentCandleRef = None, currentPrice = None, isHistoricalLoaded = False,
      status = ''Loading historical data...'', errorMessage = None,
      candleSeries = [], volumeSeries = [], sinkCalls = []\<rparr>"

text \<open>A price event of the subscribed symbol, as the feed sends it.\<close>

definition tick :: "int \<Rightarrow> real \<Rightarrow> PriceEvent" where
  "tick t p =
     \<lparr>ev_event = ''price'', ev_symbol = ''BTC/USD'', ev_currency = ''US Dollar'',
      ev_exchange = ''Coinbase Pro'', ev_type = ''Digital Currency'',
      ev_timestamp = t, ev_price = p\<rparr>"

text \<open>The candle the handler starts for a tick.\<close>

definition freshCandle :: "int \<Rightarrow> int \<Rightarrow> real \<Rightarrow> CandleAggregator" where
  "freshCandle bucket t p =
     \<lparr>agg_timestamp = bucket, agg_open = p, agg_high = p, agg_low = p, agg_close = p,
      agg_lastUpdate = t\<rparr>"

text \<open>The invariant of the specification's data model for an in-progress candle, and
  for the candle the state holds, if any.\<close>

definition candle_inv :: "int \<Rightarrow> CandleAggregator \<Rightarrow> bool" where
  "candle_inv interval c \<longleftrightarrow>
     agg_low c \<le> min (agg_open c) (agg_close c) \<and>
     min (agg_open c) (agg_close c) \<le> max (agg_open c) (agg_close c) \<and>
     max (agg_open c) (agg_close c) \<le> agg_high c \<and>
     interval dvd agg_timestamp c"

definition held_inv :: "int \<Rightarrow> page_state \<Rightarrow> bool" where
  "held_inv interval st =
     (case currentCandleRef st of None \<Rightarrow> True | Some c \<Rightarrow> candle_inv interval c)"

text \<open>A chart candle with proper prices.\<close>

definition bar :: "int number \<Rightarrow> real \<Rightarrow> real \<Rightarrow> real \<Rightarrow> real \<Rightarrow> CandlestickData" where
  "bar t op hi lo cl =
     \<lparr>cd_time = t, cd_open = Num op, cd_high = Num hi, cd_low = Num lo, cd_close = Num cl\<rparr>"

text \<open>
  A runtime for the examples. Its two tables give the values of \<^verbatim>\<open>Date.parse\<close> and
  \<^verbatim>\<open>parseFloat\<close> on the strings the examples use. The only other string an example
  passes to it is \<^verbatim>\<open>not a dateZ\<close>, for which \<^verbatim>\<open>Date.parse\<close> is \<^verbatim>\<open>NaN\<close>.
  Its sort leaves an array with \<^verbatim>\<open>NaN\<close> comparisons in the order it has; the examples
  that sort such an array have the same result for every order.
\<close>

definition sample_runtime :: "int \<Rightarrow> runtime" where
  "sample_runtime off =
     \<lparr>Date_parse = (\<lambda>s.
        if s = ''2024-01-01 00:00:00Z'' then Num 1704067200000
        else if s = ''2024-01-01 00:01:00Z'' then Num 1704067260000
        else if s = ''2024-01-01 00:02:00Z'' then Num 1704067320000
        else NaN),
      parseFloat = (\<lambda>s.
        if s = ''90'' then Num 90
        else if s = ''100'' then Num 100
        else if s = ''105'' then Num 105
        else if s = ''110'' then Num 110
        else if s = ''12.5'' then Num 12.5
        else NaN),
      getTimezoneOffset = off,
      sort_inconsistent = (\<lambda>results. [0..<length results])\<rparr>"

section \<open>Notions used to state the properties\<close>

text \<open>The timestamps among the safe integers of JavaScript, on which the arithmetic of
  the page does not round.\<close>

definition safe_timestamp :: "int \<Rightarrow> bool" where
  "safe_timestamp t \<longleftrightarrow> 0 \<le> t \<and> t < 2 ^ 53"

text \<open>The part of the candle invariant that is about prices.\<close>

definition prices_ordered :: "CandleAggregator \<Rightarrow> bool" where
  "prices_ordered c \<longleftrightarrow>
     agg_low c \<le> min (agg_open c) (agg_close c) \<and>
     min (agg_open c) (agg_close c) \<le> max (agg_open c) (agg_close c) \<and>
     max (agg_open c) (agg_close c) \<le> agg_high c"

definition held_prices_ordered :: "page_state \<Rightarrow> bool" where
  "held_prices_ordered st =
     (case currentCandleRef st of None \<Rightarrow> True | Some c \<Rightarrow> prices_ordered c)"

text \<open>An engine's sort rearranges: the indices it gives are those of the array, each
  once.\<close>

definition sort_permutes :: "runtime \<Rightarrow> bool" where
  "sort_permutes rt \<longleftrightarrow>
     (\<forall>results. set (sort_inconsistent rt results) = {..<length results}
                \<and> distinct (sort_inconsistent rt results))"

text \<open>\<^verbatim>\<open>a < b\<close> on numbers: false as soon as one side is \<^verbatim>\<open>NaN\<close>.\<close>

fun num_lt :: "int number \<Rightarrow> int number \<Rightarrow> bool" where
  "num_lt (Num a) (Num b) = (a < b)"
| "num_lt _ _ = False"

text \<open>The value of a number that is not \<^verbatim>\<open>NaN\<close>; it serves as the sort key of a
  batch whose times are all proper.\<close>

fun the_Num :: "int number \<Rightarrow> int" where
  "the_Num (Num a) = a"
| "the_Num NaN = 0"

text \<open>
  The elements of \<open>ys\<close>, in order, whose time is proper and is the time of no element
  of \<open>seen\<close> and of no earlier element of \<open>ys\<close>. The filter of the page is shown below
  to compute \<open>firstsByTime tm [] xs\<close>.
\<close>

fun firstsByTime :: "('a \<Rightarrow> int number) \<Rightarrow> 'a list \<Rightarrow> 'a list \<Rightarrow> 'a list" where
  "firstsByTime tm seen [] = []"
| "firstsByTime tm seen (y # ys) =
     (if strict_eq (tm y) (tm y) \<and> \<not> list_ex (\<lambda>s. strict_eq (tm s) (tm y)) seen
      then y # firstsByTime tm (seen @ [y]) ys
      else firstsByTime tm (seen @ [y]) ys)"

text \<open>Historical records and responses for the examples.\<close>

definition sample_record :: "string \<Rightarrow> string \<Rightarrow> TwelveDataCandle" where
  "sample_record dt cl =
     \<lparr>td_datetime = dt, td_open = ''100'', td_high = ''110'', td_low = ''90'',
      td_close = cl, td_volume = ''12.5''\<rparr>"

definition values_response :: "TwelveDataCandle list \<Rightarrow> response" where
  "values_response vs = \<lparr>rs_values = Some vs, rs_message = None, rs_code = None\<rparr>"

definition sample_values :: "TwelveDataCandle list" where
  "sample_values =
     [sample_record ''2024-01-01 00:01:00'' ''105'',
      sample_record ''2024-01-01 00:00:00'' ''90'',
      sample_record ''2024-01-01 00:01:00'' ''100'']"

definition values_with_unparsable_datetime :: "TwelveDataCandle list" where
  "values_with_unparsable_datetime =
     [sample_record ''2024-01-01 00:00:00'' ''105'',
      sample_record ''not a date'' ''105'']"

definition values_twice_unparsable_datetime :: "TwelveDataCandle list" where
  "values_twice_unparsable_datetime =
     [sample_record ''not a date'' ''105'',
      sample_record ''not a date'' ''100'']"

section \<open>Rounding to the nearest double: properties\<close>

lemma round_half_even_bounds:
  "\<lfloor>y\<rfloor> \<le> round_half_even y" "round_half_even y \<le> \<lfloor>y\<rfloor> + 1"
  by (simp_all add: round_half_even_def Let_def)

lemma round_half_even_of_int: "round_half_even (of_int m) = m"
  by (simp add: round_half_even_def Let_def)

lemma round_half_even_ge:
  assumes "of_int m \<le> y"
  shows "m \<le> round_half_even y"
proof -
  have "m \<le> \<lfloor>y\<rfloor>" using assms by (simp add: le_floor_iff)
  then show ?thesis using round_half_even_bounds(1)[of y] by linarith
qed

lemma round_half_even_le:
  assumes "y \<le> of_int m"
  shows "round_half_even y \<le> m"
proof (cases "y = of_int m")
  case True
  then show ?thesis by (simp add: round_half_even_of_int)
next
  case False
  then have "y < of_int m" using assms by simp
  then have "\<lfloor>y\<rfloor> < m" by (simp add: floor_less_iff)
  then show ?thesis using round_half_even_bounds(2)[of y] by simp
qed

lemma round_half_even_less:
  assumes "y + 1 / 2 < of_int m"
  shows "round_half_even y < m"
proof -
  have "y < of_int m" using assms by simp
  then have "\<lfloor>y\<rfloor> < m" by (simp add: floor_less_iff)
  then have fl: "\<lfloor>y\<rfloor> \<le> m - 1" by simp
  show ?thesis
  proof (cases "\<lfloor>y\<rfloor> = m - 1")
    case True
    then have "y - of_int \<lfloor>y\<rfloor> < 1 / 2" using assms by simp
    then have "round_half_even y = \<lfloor>y\<rfloor>" by (simp add: round_half_even_def Let_def)
    then show ?thesis using True by simp
  next
    case False
    then have "\<lfloor>y\<rfloor> \<le> m - 2" using fl by simp
    then show ?thesis using round_half_even_bounds(2)[of y] by simp
  qed
qed

lemma exponent_lower:
  assumes "0 < x"
  shows "2 powi (exponent x) \<le> x"
proof (cases "1 \<le> x")
  case True
  then have n: "0 < \<lfloor>x\<rfloor>" by simp
  then have b: "1 \<le> bitlen \<lfloor>x\<rfloor>" by (auto simp add: bitlen_alt_def)
  have "(2::int) ^ nat (bitlen \<lfloor>x\<rfloor> - 1) \<le> \<lfloor>x\<rfloor>" using bitlen_bounds[OF n] by simp
  then have "real_of_int (2 ^ nat (bitlen \<lfloor>x\<rfloor> - 1)) \<le> x"
    by (meson le_floor_iff)
  then show ?thesis using True b by (simp add: exponent_def power_int_def)
next
  case False
  define m where "m = \<lceil>1 / x\<rceil> - 1"
  have "1 < 1 / x" using False assms by simp
  then have m: "0 < m" unfolding m_def by (simp add: less_ceiling_iff)
  have "m < 2 ^ nat (bitlen m)" using bitlen_bounds[OF m] by simp
  then have "\<lceil>1 / x\<rceil> \<le> 2 ^ nat (bitlen m)" unfolding m_def by simp
  then have "1 / x \<le> 2 ^ nat (bitlen m)"
    by (simp add: ceiling_le_iff)
  then have "1 / 2 ^ nat (bitlen m) \<le> x"
    using assms by (simp add: field_simps)
  moreover have "0 \<le> bitlen m" by (rule bitlen_nonneg)
  ultimately show ?thesis
    using False assms unfolding exponent_def m_def[symmetric]
    by (auto simp add: power_int_def field_simps)
qed

lemma exponent_upper:
  assumes "0 < x"
  shows "x < 2 powi (exponent x + 1)"
proof (cases "1 \<le> x")
  case True
  then have n: "0 < \<lfloor>x\<rfloor>" by simp
  then have b: "1 \<le> bitlen \<lfloor>x\<rfloor>" by (auto simp add: bitlen_alt_def)
  have "\<lfloor>x\<rfloor> < 2 ^ nat (bitlen \<lfloor>x\<rfloor>)" using bitlen_bounds[OF n] by simp
  then have "x < real_of_int (2 ^ nat (bitlen \<lfloor>x\<rfloor>))"
    by (meson floor_less_iff)
  then show ?thesis using True b by (simp add: exponent_def power_int_def)
next
  case False
  define m where "m = \<lceil>1 / x\<rceil> - 1"
  have "1 < 1 / x" using False assms by simp
  then have m: "0 < m" unfolding m_def by (simp add: less_ceiling_iff)
  then have b: "1 \<le> bitlen m" by (auto simp add: bitlen_alt_def)
  have "2 ^ nat (bitlen m - 1) \<le> m" using bitlen_bounds[OF m] by simp
  moreover have "real_of_int m < 1 / x" unfolding m_def by linarith
  ultimately have "real_of_int (2 ^ nat (bitlen m - 1)) < 1 / x"
    by (meson of_int_le_iff order_le_less_trans)
  then have "2 ^ nat (bitlen m - 1) < 1 / x" by simp
  then have lt: "x < 1 / 2 ^ nat (bitlen m - 1)"
    using assms by (simp add: field_simps)
  show ?thesis
  proof (cases "bitlen m = 1")
    case True
    then show ?thesis using lt False unfolding exponent_def m_def[symmetric] by simp
  next
    case False2: False
    then have "2 \<le> bitlen m" using b by simp
    then have "nat (- (1 - bitlen m)) = nat (bitlen m - 1)" "1 - bitlen m < 0" by simp_all
    then show ?thesis
      using lt False unfolding exponent_def m_def[symmetric]
      by (simp add: power_int_def field_simps)
  qed
qed

lemma exponent_le_52:
  assumes "0 < x" and "x < 2 ^ 53"
  shows "exponent x \<le> 52"
proof (rule ccontr)
  assume "\<not> exponent x \<le> 52"
  then have "53 \<le> exponent x" by simp
  then have "(2::real) powi 53 \<le> 2 powi exponent x"
    by (intro power_int_increasing) simp_all
  then show False using exponent_lower[OF assms(1)] assms(2) by simp
qed

lemma exponent_ge_53:
  assumes "2 ^ 53 \<le> x"
  shows "53 \<le> exponent x"
proof (rule ccontr)
  assume "\<not> 53 \<le> exponent x"
  then have "exponent x + 1 \<le> 53" by simp
  then have "(2::real) powi (exponent x + 1) \<le> 2 powi 53"
    by (intro power_int_increasing) simp_all
  moreover have "0 < x" using assms by (meson less_le_trans zero_less_numeral zero_less_power)
  ultimately show False using exponent_upper[of x] assms by simp
qed

text \<open>Around a positive value below \<open>2 ^ 53\<close> the doubles are the multiples of some
  \<open>1 / 2 ^ j\<close>, and the value is at least \<open>2 ^ 52\<close> of them.\<close>

lemma small_ulp:
  assumes "0 < x" and "x < 2 ^ 53"
  obtains j :: nat where "(2::real) powi (exponent x - 52) = 1 / 2 ^ j" and "2 ^ 52 \<le> x * 2 ^ j"
proof -
  define j where "j = nat (52 - exponent x)"
  have e: "exponent x \<le> 52" by (rule exponent_le_52[OF assms])
  have u: "(2::real) powi (exponent x - 52) = 1 / 2 ^ j"
    using e by (cases "exponent x = 52") (simp_all add: j_def power_int_def field_simps)
  have "(2::real) powi (exponent x - 52 + 52) = 2 powi (exponent x - 52) * 2 powi 52"
    by (rule power_int_add) simp
  then have "2 powi (exponent x - 52) * 2 ^ 52 \<le> x"
    using exponent_lower[OF assms(1)] by simp
  then have big: "2 ^ 52 \<le> x * 2 ^ j"
    unfolding u by (simp add: field_simps)
  show ?thesis using that[OF u big] .
qed

lemma double_of_int_small:
  assumes "\<bar>n\<bar> < 2 ^ 53"
  shows "double (of_int n) = of_int n"
proof (cases "n = 0")
  case True
  then show ?thesis by (simp add: double_def)
next
  case False
  then have pos: "0 < \<bar>real_of_int n\<bar>" by simp
  have lt: "\<bar>real_of_int n\<bar> < 2 ^ 53"
    using assms by (metis of_int_abs of_int_less_numeral_power_cancel_iff)
  obtain j :: nat where u: "(2::real) powi (exponent \<bar>real_of_int n\<bar> - 52) = 1 / 2 ^ j"
    using small_ulp[OF pos lt] by blast
  have "real_of_int n / (1 / 2 ^ j) = of_int (n * 2 ^ j)" by simp
  then have "round_half_even (real_of_int n / (1 / 2 ^ j)) = n * 2 ^ j"
    by (simp only: round_half_even_of_int)
  then have "of_int (round_half_even (real_of_int n / (1 / 2 ^ j))) * (1 / 2 ^ j) = real_of_int n"
    by simp
  then show ?thesis
    unfolding double_def Let_def u using False by simp
qed

lemma dbl_small: "\<bar>n\<bar> < 2 ^ 53 \<Longrightarrow> dbl n = n"
  by (simp add: dbl_def double_of_int_small)

text \<open>\<^verbatim>\<open>Math.floor(t / I)\<close> is the integer quotient as long as \<open>t\<close> is below \<open>2 ^ 53\<close>:
  the quotient is at least \<open>1 / I\<close> below the next integer, and half the spacing of the
  doubles around it is less than that.\<close>

lemma floor_double_div:
  assumes "0 \<le> t" and "t < 2 ^ 53" and "0 < I"
  shows "\<lfloor>double (real_of_int t / real_of_int I)\<rfloor> = t div I"
proof (cases "t mod I = 0")
  case True
  then have "real_of_int t / real_of_int I = of_int (t div I)"
    by (simp add: real_of_int_div dvd_eq_mod_eq_0)
  moreover have "\<bar>t div I\<bar> < 2 ^ 53"
  proof -
    have "0 \<le> t div I" using assms by (simp add: pos_imp_zdiv_nonneg_iff)
    moreover have "t div I * 1 \<le> t div I * I"
      using calculation assms(3) by (intro mult_left_mono) simp_all
    moreover have "t div I * I \<le> t"
      using div_mult_mod_eq[of t I] pos_mod_sign[of I t] assms(3) by linarith
    ultimately show ?thesis using assms(2) by simp
  qed
  ultimately show ?thesis by (simp add: double_of_int_small)
next
  case False
  define q where "q = t div I"
  define r where "r = t mod I"
  define x where "x = real_of_int t / real_of_int I"
  have "0 \<le> t mod I" using assms(3) by simp
  with False have "0 < r" unfolding r_def by linarith
  moreover have "r < I" using assms(3) by (simp add: r_def)
  ultimately have r: "0 < r" "r < I" by simp_all
  have t: "t = q * I + r" by (simp add: q_def r_def)
  have tpos: "0 < t" using r t assms False by (cases "t = 0") auto
  have xq: "x = of_int q + of_int r / of_int I"
    using assms(3) unfolding x_def by (subst t) (simp add: field_simps)
  have xpos: "0 < x" using tpos assms(3) by (simp add: x_def)
  have xt: "x \<le> of_int t" using assms(3) tpos unfolding x_def
    by (simp add: field_simps mult_le_cancel_left1)
  then have xlt: "x < 2 ^ 53" using assms(2)
    by (meson le_less_trans of_int_less_numeral_power_cancel_iff)
  obtain j :: nat where u: "(2::real) powi (exponent x - 52) = 1 / 2 ^ j" and big: "2 ^ 52 \<le> x * 2 ^ j"
    using small_ulp[OF xpos xlt] by blast
  define y where "y = x * 2 ^ j"
  have ax: "\<bar>x\<bar> = x" using xpos by simp
  have dx: "double x = of_int (round_half_even y) / 2 ^ j"
    unfolding double_def Let_def ax u y_def using xpos by simp
  have lower: "q * 2 ^ j \<le> round_half_even y"
  proof (rule round_half_even_ge)
    have "of_int q \<le> x" using r assms(3) by (simp add: xq)
    then show "real_of_int (q * 2 ^ j) \<le> y" by (simp add: y_def)
  qed
  have upper: "round_half_even y < (q + 1) * 2 ^ j"
  proof (rule round_half_even_less)
    have gap: "1 / of_int I \<le> of_int (q + 1) - x"
      using r assms(3) by (simp add: xq field_simps)
    have le: "2 ^ 52 * real_of_int I \<le> of_int t * 2 ^ j"
      using big assms(3) unfolding x_def by (simp add: field_simps)
    have "real_of_int t < 2 ^ 53" using assms(2) by simp
    then have "real_of_int t * 2 ^ j < 2 ^ 53 * 2 ^ j"
      by (intro mult_strict_right_mono) simp_all
    moreover have "(2::real) ^ 53 * 2 ^ j = 2 ^ 52 * (2 * 2 ^ j)" by simp
    ultimately have "real_of_int t * 2 ^ j < 2 ^ 52 * (2 * 2 ^ j)" by (simp only:)
    with le have "2 ^ 52 * real_of_int I < 2 ^ 52 * (2 * 2 ^ j)"
      by (rule order_le_less_trans)
    then have "real_of_int I < 2 * 2 ^ j"
      by (simp only: mult_less_cancel_left_pos zero_less_power zero_less_numeral)
    then have half: "1 / 2 < 2 ^ j * (1 / real_of_int I)"
      using assms(3) by (simp add: field_simps)
    have "2 ^ j * (1 / real_of_int I) \<le> 2 ^ j * (of_int (q + 1) - x)"
      using gap by (intro mult_left_mono) simp_all
    then have "1 / 2 < of_int (q + 1) * 2 ^ j - x * 2 ^ j"
      using half by (simp add: algebra_simps)
    then show "y + 1 / 2 < real_of_int ((q + 1) * 2 ^ j)"
      by (simp add: y_def)
  qed
  have "of_int q \<le> double x"
  proof -
    have "real_of_int (q * 2 ^ j) \<le> of_int (round_half_even y)" using lower by linarith
    then show ?thesis unfolding dx by (simp add: field_simps)
  qed
  moreover have "double x < of_int q + 1"
  proof -
    have "real_of_int (round_half_even y) < of_int ((q + 1) * 2 ^ j)" using upper by linarith
    then show ?thesis unfolding dx by (simp add: field_simps)
  qed
  ultimately have "\<lfloor>double x\<rfloor> = q" by (rule floor_unique)
  then show ?thesis by (simp add: x_def q_def)
qed

lemma exponent_nonneg:
  assumes "1 \<le> x"
  shows "0 \<le> exponent x"
proof (rule ccontr)
  assume "\<not> 0 \<le> exponent x"
  then have "exponent x + 1 \<le> 0" by simp
  then have "(2::real) powi (exponent x + 1) \<le> 2 powi 0"
    by (intro power_int_increasing) simp_all
  then show False using exponent_upper[of x] assms by simp
qed

lemma double_ge_power:
  assumes "0 < x"
  shows "2 powi (exponent x) \<le> double x"
proof -
  define u :: real where "u = 2 powi (exponent x - 52)"
  have upos: "0 < u" by (simp add: u_def)
  have "(2::real) powi (exponent x - 52 + 52) = 2 powi (exponent x - 52) * 2 powi 52"
    by (rule power_int_add) simp
  then have pe: "2 powi (exponent x) = u * 2 ^ 52" by (simp add: u_def)
  then have "u * 2 ^ 52 \<le> x" using exponent_lower[OF assms] by simp
  then have "real_of_int (2 ^ 52) \<le> x / u" using upos by (simp add: field_simps)
  then have "2 ^ 52 \<le> round_half_even (x / u)" by (rule round_half_even_ge)
  then have "real_of_int (2 ^ 52) \<le> of_int (round_half_even (x / u))" by linarith
  then have "real_of_int (2 ^ 52) * u \<le> of_int (round_half_even (x / u)) * u"
    using upos by (intro mult_right_mono) simp_all
  moreover have "double x = of_int (round_half_even (x / u)) * u"
    using assms by (simp add: double_def Let_def u_def)
  ultimately show ?thesis unfolding pe by (simp add: mult.commute)
qed

lemma double_nonpos:
  assumes "x \<le> 0"
  shows "double x \<le> 0"
proof (cases "x = 0")
  case True
  then show ?thesis by (simp add: double_def)
next
  case False
  define u :: real where "u = 2 powi (exponent \<bar>x\<bar> - 52)"
  have upos: "0 < u" by (simp add: u_def)
  have "x / u \<le> of_int 0" using assms upos by (simp add: field_simps)
  then have "round_half_even (x / u) \<le> 0" by (rule round_half_even_le)
  then have "real_of_int (round_half_even (x / u)) * u \<le> 0"
    using upos by (simp add: mult_le_0_iff)
  then show ?thesis using False by (simp add: double_def Let_def u_def)
qed

lemma dbl_nonpos_iff: "dbl n \<le> 0 \<longleftrightarrow> n \<le> 0"
proof
  assume "n \<le> 0"
  then have "double (of_int n) \<le> 0" by (intro double_nonpos) simp
  then show "dbl n \<le> 0" by (simp add: dbl_def floor_le_iff)
next
  assume a: "dbl n \<le> 0"
  show "n \<le> 0"
  proof (rule ccontr)
    assume "\<not> n \<le> 0"
    then have x: "1 \<le> real_of_int n" by simp
    then have "(2::real) powi 0 \<le> 2 powi (exponent (of_int n))"
      by (intro power_int_increasing exponent_nonneg) simp_all
    moreover have "2 powi (exponent (of_int n)) \<le> double (of_int n)"
      using x by (intro double_ge_power) simp
    ultimately have "of_int 1 \<le> double (of_int n)" by simp
    then have "1 \<le> dbl n" unfolding dbl_def by (simp only: le_floor_iff)
    then show False using a by simp
  qed
qed

text \<open>The nearest double to an integer is an integer, so \<open>dbl\<close> loses nothing.\<close>

lemma double_of_int_integral: "real_of_int (dbl n) = double (of_int n)"
proof (cases "\<bar>n\<bar> < 2 ^ 53")
  case True
  then show ?thesis by (simp add: dbl_def double_of_int_small)
next
  case False
  then have big: "2 ^ 53 \<le> \<bar>real_of_int n\<bar>"
    by (metis not_less of_int_abs numeral_power_le_of_int_cancel_iff)
  then have e: "53 \<le> exponent \<bar>real_of_int n\<bar>" by (rule exponent_ge_53)
  define k where "k = nat (exponent \<bar>real_of_int n\<bar> - 52)"
  have u: "(2::real) powi (exponent \<bar>real_of_int n\<bar> - 52) = 2 ^ k"
    using e by (simp add: power_int_def k_def)
  have "n \<noteq> 0" using False by auto
  then have "double (of_int n) =
      of_int (round_half_even (real_of_int n / 2 ^ k) * 2 ^ k)"
    unfolding double_def Let_def u by simp
  then show ?thesis unfolding dbl_def by (simp only: floor_of_int)
qed

section \<open>Time bucketing: properties\<close>

lemma int_mul_small: "\<bar>a * b\<bar> < 2 ^ 53 \<Longrightarrow> int_mul a b = a * b"
  by (simp add: int_mul_def dbl_small)

lemma div_mult_le_self: "0 < I \<Longrightarrow> t div I * I \<le> (t::int)"
  using div_mult_mod_eq[of t I] pos_mod_sign[of I t] by linarith

lemma less_div_mult_add: "0 < I \<Longrightarrow> (t::int) < t div I * I + I"
  using div_mult_mod_eq[of t I] pos_mod_bound[of I t] by linarith

text \<open>Below \<open>2 ^ 53\<close> neither the division nor the multiplication rounds.\<close>

lemma getCandleTimestamp_div:
  assumes "0 < I" and "0 \<le> t" and "t < 2 ^ 53"
  shows "getCandleTimestamp I t = t div I * I"
proof -
  have "0 \<le> t div I" using assms by (simp add: pos_imp_zdiv_nonneg_iff)
  then have "0 \<le> t div I * I" using assms(1) by simp
  moreover have "t div I * I \<le> t" by (rule div_mult_le_self[OF assms(1)])
  ultimately have "\<bar>t div I * I\<bar> < 2 ^ 53" using assms(3) by simp
  then show ?thesis
    by (simp add: getCandleTimestamp_def floor_double_div[OF assms(2,3,1)] int_mul_small)
qed

text \<open>
  Claim C2, amended. For every non-negative integer timestamp \<open>t\<close> below \<open>2 ^ 53\<close> and
  positive interval \<open>I\<close> the bucketing function returns \<open>floor (t / I) * I\<close>, which is
  \<open>t div I * I\<close>; the result is a multiple of \<open>I\<close>, it is at most \<open>t\<close>, and \<open>t\<close> is
  less than the result plus \<open>I\<close>. The function is a total function of its two arguments
  and nothing else.
\<close>

theorem bucketStart_floor_multiple_bounds:
  assumes "0 < I" and "0 \<le> t" and "t < 2 ^ 53"
  shows "getCandleTimestamp I t = \<lfloor>real_of_int t / real_of_int I\<rfloor> * I
       \<and> getCandleTimestamp I t = t div I * I
       \<and> I dvd getCandleTimestamp I t
       \<and> getCandleTimestamp I t \<le> t
       \<and> t < getCandleTimestamp I t + I
       \<and> 0 \<le> getCandleTimestamp I t"
proof -
  note eq = getCandleTimestamp_div[OF assms]
  have "0 \<le> t div I" using assms by (simp add: pos_imp_zdiv_nonneg_iff)
  then have "0 \<le> t div I * I" using assms by simp
  then have "0 \<le> getCandleTimestamp I t"
    by (simp add: eq)
  moreover have "getCandleTimestamp I t = \<lfloor>real_of_int t / real_of_int I\<rfloor> * I"
    by (simp add: eq floor_divide_of_int_eq)
  moreover have "I dvd getCandleTimestamp I t"
    by (simp add: eq)
  moreover have "getCandleTimestamp I t \<le> t" "t < getCandleTimestamp I t + I"
    using assms(1) div_mult_le_self[of I t] less_div_mult_add[of I t]
    by (simp_all add: eq)
  ultimately show ?thesis
    using eq by blast
qed

theorem bucketStart_floor_multiple_bounds_witness:
  "(0::int) < 60 \<and> (0::int) \<le> 125 \<and> (125::int) < 2 ^ 53 \<and> getCandleTimestamp 60 125 = 120
   \<and> 60 dvd getCandleTimestamp 60 125 \<and> getCandleTimestamp 60 125 \<le> 125
   \<and> 125 < getCandleTimestamp 60 125 + 60"
  using bucketStart_floor_multiple_bounds[of 60 125] by simp

text \<open>
  Claim C2 as stated fails beyond \<open>2 ^ 53\<close>. The timestamp \<open>10 ^ 17\<close> is a double; the
  quotient by 60 rounds to \<open>1666666666666666.75\<close>, its floor times 60 is
  \<open>99999999999999960\<close>, which lies halfway between two doubles and rounds to
  \<open>99999999999999968\<close>: not \<open>floor (t / 60) * 60\<close> and not a multiple of 60.
\<close>

theorem bucketStart_beyond_safe_range_counterexample:
  "dbl 100000000000000000 = 100000000000000000
   \<and> getCandleTimestamp 60 100000000000000000 = 99999999999999968
   \<and> \<lfloor>real_of_int 100000000000000000 / real_of_int 60\<rfloor> * 60 = 99999999999999960
   \<and> \<not> 60 dvd getCandleTimestamp 60 100000000000000000"
  by code_simp

section \<open>Live aggregation: properties\<close>

lemma onmessage_held:
  assumes "ev_event data = ''price''" and "ev_symbol data = ''BTC/USD''"
  shows "currentCandleRef (onmessage I rt st data) =
     Some (case currentCandleRef st of
             None \<Rightarrow> freshCandle (getCandleTimestamp I (ev_timestamp data)) (ev_timestamp data) (ev_price data)
           | Some c \<Rightarrow>
               if agg_timestamp c \<noteq> getCandleTimestamp I (ev_timestamp data)
               then freshCandle (getCandleTimestamp I (ev_timestamp data)) (ev_timestamp data) (ev_price data)
               else c\<lparr>agg_high := max (agg_high c) (ev_price data),
                      agg_low := min (agg_low c) (ev_price data),
                      agg_close := ev_price data,
                      agg_lastUpdate := ev_timestamp data\<rparr>)"
  using assms
  by (simp add: onmessage_def candleSeriesRef_update_def freshCandle_def Let_def split: option.split)

lemma onmessage_ignored:
  "ev_event data \<noteq> ''price'' \<or> ev_symbol data \<noteq> ''BTC/USD'' \<Longrightarrow> onmessage I rt st data = st"
  by (auto simp add: onmessage_def)

text \<open>
  Claim C1. For a price tick of the subscribed symbol handled with interval \<open>I\<close>: when
  no candle is held, or the held candle's bucket is older than the tick's bucket, or it is
  newer, the held candle becomes a fresh one whose open, high, low and close are the
  tick's price and whose bucket is the tick's bucket; when the held candle is of the
  tick's bucket, its high becomes the maximum of the high and the price, its low the
  minimum of the low and the price, its close the price, and its open stays.
\<close>

theorem ingest_new_or_update:
  assumes "0 < I" and "ev_event data = ''price''" and "ev_symbol data = ''BTC/USD''"
  shows "let bucket = getCandleTimestamp I (ev_timestamp data);
             price = ev_price data;
             fresh = \<lparr>agg_timestamp = bucket, agg_open = price, agg_high = price,
                      agg_low = price, agg_close = price,
                      agg_lastUpdate = ev_timestamp data\<rparr>;
             held' = currentCandleRef (onmessage I rt st data)
         in (currentCandleRef st = None \<longrightarrow> held' = Some fresh)
          \<and> (\<forall>c. currentCandleRef st = Some c \<and> agg_timestamp c < bucket \<longrightarrow>
                held' = Some fresh)
          \<and> (\<forall>c. currentCandleRef st = Some c \<and> bucket < agg_timestamp c \<longrightarrow>
                held' = Some fresh)
          \<and> (\<forall>c. currentCandleRef st = Some c \<and> agg_timestamp c = bucket \<longrightarrow>
                held' = Some \<lparr>agg_timestamp = bucket, agg_open = agg_open c,
                              agg_high = max (agg_high c) price,
                              agg_low = min (agg_low c) price,
                              agg_close = price,
                              agg_lastUpdate = ev_timestamp data\<rparr>)"
  unfolding Let_def onmessage_held[OF assms(2,3)]
  by (auto simp add: freshCandle_def)

theorem ingest_new_or_update_witness:
  "(let st = initial_state\<lparr>currentCandleRef :=
               Some \<lparr>agg_timestamp = 120, agg_open = 100, agg_high = 110, agg_low = 90,
                     agg_close = 95, agg_lastUpdate = 130\<rparr>\<rparr>
    in (0::int) < 60
     \<and> currentCandleRef (onmessage 60 (sample_runtime 0) initial_state (tick 130 100)) =
         Some \<lparr>agg_timestamp = 120, agg_open = 100, agg_high = 100, agg_low = 100,
               agg_close = 100, agg_lastUpdate = 130\<rparr>
     \<and> currentCandleRef (onmessage 60 (sample_runtime 0) st (tick 65 70)) =
         Some \<lparr>agg_timestamp = 60, agg_open = 70, agg_high = 70, agg_low = 70,
               agg_close = 70, agg_lastUpdate = 65\<rparr>
     \<and> currentCandleRef (onmessage 60 (sample_runtime 0) st (tick 185 70)) =
         Some \<lparr>agg_timestamp = 180, agg_open = 70, agg_high = 70, agg_low = 70,
               agg_close = 70, agg_lastUpdate = 185\<rparr>
     \<and> currentCandleRef (onmessage 60 (sample_runtime 0) st (tick 150 120)) =
         Some \<lparr>agg_timestamp = 120, agg_open = 100, agg_high = 120, agg_low = 90,
               agg_close = 120, agg_lastUpdate = 150\<rparr>)"
proof -
  define st where "st = initial_state\<lparr>currentCandleRef :=
               Some \<lparr>agg_timestamp = 120, agg_open = 100, agg_high = 110, agg_low = 90,
                     agg_close = 95, agg_lastUpdate = 130\<rparr>\<rparr>"
  have b: "getCandleTimestamp 60 130 = 120" "getCandleTimestamp 60 65 = 60"
      "getCandleTimestamp 60 185 = 180" "getCandleTimestamp 60 150 = 120"
    by (simp_all add: getCandleTimestamp_div)
  have pos: "(0::int) < 60" by simp
  have ev: "ev_event (tick t p) = ''price''" "ev_symbol (tick t p) = ''BTC/USD''" for t p
    by (simp_all add: tick_def)
  have "currentCandleRef (onmessage 60 (sample_runtime 0) initial_state (tick 130 100)) =
         Some \<lparr>agg_timestamp = 120, agg_open = 100, agg_high = 100, agg_low = 100,
               agg_close = 100, agg_lastUpdate = 130\<rparr>"
    using ingest_new_or_update[OF pos ev, where rt = "sample_runtime 0" and st = initial_state
                               and t1 = 130 and p1 = 100]
    by (simp add: Let_def tick_def initial_state_def b)
  moreover have "currentCandleRef (onmessage 60 (sample_runtime 0) st (tick 65 70)) =
         Some \<lparr>agg_timestamp = 60, agg_open = 70, agg_high = 70, agg_low = 70,
               agg_close = 70, agg_lastUpdate = 65\<rparr>"
    using ingest_new_or_update[OF pos ev, where rt = "sample_runtime 0" and st = st
                               and t1 = 65 and p1 = 70]
    by (simp add: Let_def tick_def st_def initial_state_def b)
  moreover have "currentCandleRef (onmessage 60 (sample_runtime 0) st (tick 185 70)) =
         Some \<lparr>agg_timestamp = 180, agg_open = 70, agg_high = 70, agg_low = 70,
               agg_close = 70, agg_lastUpdate = 185\<rparr>"
    using ingest_new_or_update[OF pos ev, where rt = "sample_runtime 0" and st = st
                               and t1 = 185 and p1 = 70]
    by (simp add: Let_def tick_def st_def initial_state_def b)
  moreover have "currentCandleRef (onmessage 60 (sample_runtime 0) st (tick 150 120)) =
         Some \<lparr>agg_timestamp = 120, agg_open = 100, agg_high = 120, agg_low = 90,
               agg_close = 120, agg_lastUpdate = 150\<rparr>"
    using ingest_new_or_update[OF pos ev, where rt = "sample_runtime 0" and st = st
                               and t1 = 150 and p1 = 120]
    by (simp add: Let_def tick_def st_def initial_state_def b)
  ultimately show ?thesis
    unfolding st_def Let_def by simp
qed

lemma prices_ordered_fresh: "prices_ordered (freshCandle b t p)"
  by (simp add: prices_ordered_def freshCandle_def)

lemma prices_ordered_update:
  assumes "prices_ordered c"
  shows "prices_ordered (c\<lparr>agg_high := max (agg_high c) p, agg_low := min (agg_low c) p,
                             agg_close := p, agg_lastUpdate := t\<rparr>)"
  using assms by (auto simp add: prices_ordered_def min_le_iff_disj le_max_iff_disj)

lemma candle_inv_iff: "candle_inv I c \<longleftrightarrow> prices_ordered c \<and> I dvd agg_timestamp c"
  by (simp add: candle_inv_def prices_ordered_def)

lemma held_prices_ordered_onmessage:
  assumes "held_prices_ordered st"
  shows "held_prices_ordered (onmessage I rt st data)"
proof (cases "ev_event data = ''price'' \<and> ev_symbol data = ''BTC/USD''")
  case True
  then show ?thesis
    using assms
    by (auto simp add: held_prices_ordered_def onmessage_held prices_ordered_fresh
             prices_ordered_update split: option.splits)
next
  case False
  then show ?thesis
    using assms onmessage_ignored[of data I rt st] by auto
qed

lemma held_prices_ordered_feed:
  "held_prices_ordered st \<Longrightarrow> held_prices_ordered (feed I st evs)"
  by (induction evs arbitrary: st) (auto simp add: held_prices_ordered_onmessage)

lemma candle_inv_fresh:
  assumes "0 < I" and "safe_timestamp t"
  shows "candle_inv I (freshCandle (getCandleTimestamp I t) t p)"
  using assms
  by (simp add: candle_inv_iff prices_ordered_fresh safe_timestamp_def getCandleTimestamp_div)
     (simp add: freshCandle_def)

lemma candle_inv_update:
  assumes "candle_inv I c"
  shows "candle_inv I (c\<lparr>agg_high := max (agg_high c) p, agg_low := min (agg_low c) p,
                         agg_close := p, agg_lastUpdate := t\<rparr>)"
  using assms prices_ordered_update[where c = c and p = p and t = t] by (simp add: candle_inv_iff)

lemma held_inv_onmessage:
  assumes "0 < I" and "held_inv I st" and "safe_timestamp (ev_timestamp data)"
  shows "held_inv I (onmessage I rt st data)"
proof (cases "ev_event data = ''price'' \<and> ev_symbol data = ''BTC/USD''")
  case True
  then show ?thesis
    using assms
    by (auto simp add: held_inv_def onmessage_held candle_inv_fresh candle_inv_update
             split: option.splits)
next
  case False
  then show ?thesis
    using assms onmessage_ignored[of data I rt st] by auto
qed

lemma held_inv_feed:
  assumes "0 < I"
  shows "held_inv I st \<Longrightarrow> list_all (\<lambda>(rt, data). safe_timestamp (ev_timestamp data)) evs \<Longrightarrow>
         held_inv I (feed I st evs)"
  by (induction evs arbitrary: st) (auto simp add: held_inv_onmessage[OF assms])

text \<open>
  Claim C3, amended. The held candle satisfies
  \<open>low \<le> min open close \<le> max open close \<le> high\<close> at all times: every handled event and
  every sequence of events preserves it. Its bucket is a multiple of the interval as long
  as the timestamps of the ticks are non-negative integers below \<open>2 ^ 53\<close>: the candle
  created by such a first tick has the whole invariant, and every such event and every
  sequence of such events preserves it.
\<close>

theorem held_candle_invariant:
  assumes "0 < I"
  shows "(held_prices_ordered st \<longrightarrow> held_prices_ordered (onmessage I rt st data))
       \<and> (held_prices_ordered st \<longrightarrow> held_prices_ordered (feed I st evs))
       \<and> (currentCandleRef st = None \<and> ev_event data = ''price'' \<and> ev_symbol data = ''BTC/USD''
            \<and> safe_timestamp (ev_timestamp data)
            \<longrightarrow> (\<exists>c. currentCandleRef (onmessage I rt st data) = Some c \<and> candle_inv I c))
       \<and> (held_inv I st \<and> safe_timestamp (ev_timestamp data)
            \<longrightarrow> held_inv I (onmessage I rt st data))
       \<and> (held_inv I st \<and> list_all (\<lambda>(rt, data). safe_timestamp (ev_timestamp data)) evs
            \<longrightarrow> held_inv I (feed I st evs))"
  using assms
  by (auto simp add: onmessage_held candle_inv_fresh held_inv_onmessage held_inv_feed
        held_prices_ordered_onmessage held_prices_ordered_feed)

theorem held_candle_invariant_witness:
  "(0::int) < 60
   \<and> currentCandleRef initial_state = None
   \<and> held_inv 60 initial_state
   \<and> held_prices_ordered initial_state
   \<and> safe_timestamp 30
   \<and> list_all (\<lambda>(rt, data). safe_timestamp (ev_timestamp data))
        [(sample_runtime 0, tick 0 100), (sample_runtime 0, tick 30 110), (sample_runtime 0, tick 59 90)]
   \<and> (\<exists>c. currentCandleRef (onmessage 60 (sample_runtime 0) initial_state (tick 30 110)) = Some c
          \<and> candle_inv 60 c)
   \<and> held_inv 60 (feed 60 initial_state
        [(sample_runtime 0, tick 0 100), (sample_runtime 0, tick 30 110), (sample_runtime 0, tick 59 90)])
   \<and> held_prices_ordered (feed 60 initial_state
        [(sample_runtime 0, tick 0 100), (sample_runtime 0, tick 30 110), (sample_runtime 0, tick 59 90)])"
proof -
  have pos: "(0::int) < 60" by simp
  have h: "currentCandleRef initial_state = None" "held_inv 60 initial_state"
      "held_prices_ordered initial_state"
    by (simp_all add: initial_state_def held_inv_def held_prices_ordered_def)
  have ev: "ev_event (tick 30 110) = ''price''" "ev_symbol (tick 30 110) = ''BTC/USD''"
      "safe_timestamp (ev_timestamp (tick 30 110))" "safe_timestamp 30"
    by (simp_all add: tick_def safe_timestamp_def)
  have l: "list_all (\<lambda>(rt, data). safe_timestamp (ev_timestamp data))
        [(sample_runtime 0, tick 0 100), (sample_runtime 0, tick 30 110), (sample_runtime 0, tick 59 90)]"
    by (simp add: tick_def safe_timestamp_def)
  show ?thesis
    using held_candle_invariant[OF pos, where st = initial_state and rt = "sample_runtime 0"
            and evs = "[(sample_runtime 0, tick 0 100), (sample_runtime 0, tick 30 110),
                        (sample_runtime 0, tick 59 90)]"
            and data = "tick 30 110"]
          h ev l
    by simp
qed

text \<open>
  Claim C3 as stated fails for the bucket: from the state with no held candle, which has
  the invariant, the tick with timestamp \<open>10 ^ 17\<close> and the interval of 60 leaves a held
  candle of bucket \<open>99999999999999968\<close>, which is not a multiple of 60.
\<close>

theorem held_bucket_beyond_safe_range_counterexample:
  "held_inv 60 initial_state
   \<and> map_option agg_timestamp
        (currentCandleRef (onmessage 60 (sample_runtime 0) initial_state
           (tick 100000000000000000 100))) = Some 99999999999999968
   \<and> \<not> held_inv 60 (onmessage 60 (sample_runtime 0) initial_state (tick 100000000000000000 100))"
  by code_simp

text \<open>
  Claim C9. An event whose tag is not \<^verbatim>\<open>price\<close> or whose symbol is not the subscribed
  one leaves the whole state as it was: the held candle with its last-update timestamp,
  the series, and the log of calls on the series, to which no update is added.
\<close>

theorem nonmatching_event_ignored:
  assumes "ev_event data \<noteq> ''price'' \<or> ev_symbol data \<noteq> ''BTC/USD''"
  shows "onmessage I rt st data = st
       \<and> currentCandleRef (onmessage I rt st data) = currentCandleRef st
       \<and> candleSeries (onmessage I rt st data) = candleSeries st
       \<and> sinkCalls (onmessage I rt st data) = sinkCalls st"
  using assms by (auto simp add: onmessage_def)

theorem nonmatching_event_ignored_witness:
  "(let st = initial_state\<lparr>currentCandleRef :=
               Some \<lparr>agg_timestamp = 120, agg_open = 100, agg_high = 110, agg_low = 90,
                     agg_close = 95, agg_lastUpdate = 130\<rparr>\<rparr>
    in ev_event ((tick 200 50)\<lparr>ev_event := ''heartbeat''\<rparr>) \<noteq> ''price''
     \<and> onmessage 60 (sample_runtime 0) st ((tick 200 50)\<lparr>ev_event := ''heartbeat''\<rparr>) = st
     \<and> ev_symbol ((tick 200 50)\<lparr>ev_symbol := ''ETH/USD''\<rparr>) \<noteq> ''BTC/USD''
     \<and> onmessage 60 (sample_runtime 0) st ((tick 200 50)\<lparr>ev_symbol := ''ETH/USD''\<rparr>) = st)"
proof -
  have a: "ev_event ((tick 200 50)\<lparr>ev_event := ''heartbeat''\<rparr>) \<noteq> ''price''"
    by (simp add: tick_def)
  have b: "ev_symbol ((tick 200 50)\<lparr>ev_symbol := ''ETH/USD''\<rparr>) \<noteq> ''BTC/USD''"
    by (simp add: tick_def)
  show ?thesis
    unfolding Let_def
    using a b nonmatching_event_ignored[OF disjI1[OF a]] nonmatching_event_ignored[OF disjI2[OF b]]
    by blast
qed

lemma convertToLocalTime_Num:
  assumes "\<bar>t\<bar> + \<bar>getTimezoneOffset rt\<bar> * 60 < 2 ^ 53"
  shows "convertToLocalTime rt (Num t) = Num (t - getTimezoneOffset rt * 60)"
proof -
  have "\<bar>getTimezoneOffset rt * 60\<bar> = \<bar>getTimezoneOffset rt\<bar> * 60" by (simp add: abs_mult)
  then have a: "\<bar>getTimezoneOffset rt * 60\<bar> < 2 ^ 53" using assms by linarith
  have "\<bar>t - getTimezoneOffset rt * 60\<bar> \<le> \<bar>t\<bar> + \<bar>getTimezoneOffset rt * 60\<bar>" by linarith
  then have b: "\<bar>t - getTimezoneOffset rt * 60\<bar> < 2 ^ 53"
    using assms \<open>\<bar>getTimezoneOffset rt * 60\<bar> = \<bar>getTimezoneOffset rt\<bar> * 60\<close> by linarith
  show ?thesis
    by (simp add: convertToLocalTime_def Let_def int_mul_small[OF a] dbl_small[OF b])
qed

text \<open>
  Claim C10, amended. The timezone offset is a whole number of minutes, so for a UTC
  timestamp \<open>t\<close> that is a multiple of 60, with \<open>\<bar>t\<bar> + 60 * \<bar>offset\<bar>\<close> below \<open>2 ^ 53\<close>, the
  local time is \<open>t - 60 * offset\<close>, a multiple of 60 too; and for a tick with a
  non-negative timestamp \<open>ts\<close> such that \<open>ts + 60 * \<bar>offset\<bar>\<close> is below \<open>2 ^ 53\<close>, the time
  of the candle that the live handler passes to the chart, with the interval of 60
  seconds, is a multiple of 60.
\<close>

theorem local_time_keeps_minute_alignment:
  "(60 dvd t \<and> \<bar>t\<bar> + \<bar>getTimezoneOffset rt\<bar> * 60 < 2 ^ 53 \<longrightarrow>
      convertToLocalTime rt (Num t) = Num (t - getTimezoneOffset rt * 60)
      \<and> 60 dvd (t - getTimezoneOffset rt * 60))
   \<and> (ev_event data = ''price'' \<and> ev_symbol data = ''BTC/USD''
        \<and> 0 \<le> ev_timestamp data
        \<and> ev_timestamp data + \<bar>getTimezoneOffset rt\<bar> * 60 < 2 ^ 53 \<longrightarrow>
        (\<exists>c u. sinkCalls (onmessage CANDLE_INTERVAL rt st data) = sinkCalls st @ [Update c]
           \<and> cd_time c = Num u \<and> 60 dvd u))"
proof -
  have live: "\<exists>c u. sinkCalls (onmessage CANDLE_INTERVAL rt st data) = sinkCalls st @ [Update c]
           \<and> cd_time c = Num u \<and> 60 dvd u"
    if ev: "ev_event data = ''price''" "ev_symbol data = ''BTC/USD''"
      and t0: "0 \<le> ev_timestamp data"
      and t1: "ev_timestamp data + \<bar>getTimezoneOffset rt\<bar> * 60 < 2 ^ 53"
  proof -
    define ts where "ts = ev_timestamp data"
    have lt: "ts < 2 ^ 53" using t1 by (simp add: ts_def)
    have bucket: "getCandleTimestamp 60 ts = ts div 60 * 60"
      using t0 lt by (intro getCandleTimestamp_div) (simp_all add: ts_def)
    have "0 \<le> ts div 60 * 60" using t0 by (simp add: ts_def pos_imp_zdiv_nonneg_iff)
    moreover have "ts div 60 * 60 \<le> ts" by (rule div_mult_le_self) simp
    ultimately have "\<bar>ts div 60 * 60\<bar> + \<bar>getTimezoneOffset rt\<bar> * 60 < 2 ^ 53"
      using t1 by (simp add: ts_def)
    then have loc: "convertToLocalTime rt (Num (ts div 60 * 60))
        = Num (ts div 60 * 60 - getTimezoneOffset rt * 60)"
      by (rule convertToLocalTime_Num)
    have "60 dvd ts div 60 * 60 - getTimezoneOffset rt * 60" by simp
    then show ?thesis
      using ev loc bucket
      by (auto simp add: onmessage_def candleSeriesRef_update_def Let_def CANDLE_INTERVAL_def
            ts_def)
  qed
  show ?thesis
    using live by (auto simp add: convertToLocalTime_Num)
qed

theorem local_time_keeps_minute_alignment_witness:
  "(60::int) dvd 1704067260
   \<and> \<bar>1704067260\<bar> + \<bar>getTimezoneOffset (sample_runtime (- 120))\<bar> * 60 < 2 ^ 53
   \<and> convertToLocalTime (sample_runtime (- 120)) (Num 1704067260) = Num 1704074460
   \<and> (60::int) dvd 1704074460
   \<and> (\<exists>c u. sinkCalls (onmessage CANDLE_INTERVAL (sample_runtime (- 120)) initial_state
                 (tick 1704067275 100)) = sinkCalls initial_state @ [Update c]
           \<and> cd_time c = Num u \<and> 60 dvd u)"
proof -
  have d: "(60::int) dvd 1704067260" by simp
  have s: "\<bar>1704067260\<bar> + \<bar>getTimezoneOffset (sample_runtime (- 120))\<bar> * 60 < 2 ^ 53"
    by (simp add: sample_runtime_def)
  have ev: "ev_event (tick 1704067275 100) = ''price''" "ev_symbol (tick 1704067275 100) = ''BTC/USD''"
      "0 \<le> ev_timestamp (tick 1704067275 100)"
      "ev_timestamp (tick 1704067275 100) + \<bar>getTimezoneOffset (sample_runtime (- 120))\<bar> * 60 < 2 ^ 53"
    by (simp_all add: tick_def sample_runtime_def)
  have o: "getTimezoneOffset (sample_runtime (- 120)) = - 120" by (simp add: sample_runtime_def)
  show ?thesis
    using local_time_keeps_minute_alignment[of 1704067260 "sample_runtime (- 120)"
            "tick 1704067275 100" initial_state] d s ev
    unfolding o by simp
qed

text \<open>
  Claim C10 as stated fails beyond \<open>2 ^ 53\<close>. The timestamp \<open>60 * 2 ^ 53\<close> is a double
  and a multiple of 60; with the offset of \<open>- 120\<close> minutes the difference
  \<open>540431955284466720\<close> lies halfway between two doubles and rounds to
  \<open>540431955284466688\<close>, which is not a multiple of 60. And the live handler passes the
  chart time \<open>99999999999999968\<close> for a tick at \<open>10 ^ 17\<close>.
\<close>

theorem local_time_beyond_safe_range_counterexample:
  "dbl 540431955284459520 = 540431955284459520
   \<and> (60::int) dvd 540431955284459520
   \<and> convertToLocalTime (sample_runtime (- 120)) (Num 540431955284459520)
       = Num 540431955284466688
   \<and> \<not> (60::int) dvd 540431955284466688
   \<and> sinkCalls (onmessage CANDLE_INTERVAL (sample_runtime 0) initial_state
        (tick 100000000000000000 100))
       = [Update (bar (Num 99999999999999968) 100 100 100 100)]
   \<and> \<not> (60::int) dvd 99999999999999968"
  by code_simp

lemma bucket_60_119:
  assumes "60 \<le> t" and "t < 120"
  shows "getCandleTimestamp 60 t = 60"
proof -
  have "getCandleTimestamp 60 t = t div 60 * 60"
    using assms by (intro getCandleTimestamp_div) simp_all
  then show ?thesis using assms by simp
qed

lemma onmessage_series:
  assumes "ev_event data = ''price''" and "ev_symbol data = ''BTC/USD''"
    and "currentCandleRef (onmessage I rt st data) = Some cur"
  shows "candleSeries (onmessage I rt st data) =
     upsertLast \<lparr>cd_time = convertToLocalTime rt (Num (getCandleTimestamp I (ev_timestamp data))),
                 cd_open = Num (agg_open cur), cd_high = Num (agg_high cur),
                 cd_low = Num (agg_low cur), cd_close = Num (agg_close cur)\<rparr>
       (candleSeries st)"
  using assms
  by (simp add: onmessage_def candleSeriesRef_update_def Let_def)

lemma tick_fields:
  "ev_event (tick t p) = ''price''" "ev_symbol (tick t p) = ''BTC/USD''"
  "ev_timestamp (tick t p) = t" "ev_price (tick t p) = p"
  by (simp_all add: tick_def)

lemma upsertLast_Nil: "upsertLast c [] = [c]"
  by (simp add: upsertLast_def)

text \<open>
  Claim C7. With a timezone offset of at most a day (1440 minutes), as every engine
  reports, and starting with no held candle and an empty series, the ticks \<open>(0, 100)\<close>,
  \<open>(30, 110)\<close>, \<open>(59, 90)\<close> with the interval of 60 leave the held candle
  \<open>open 100, high 110, low 90, close 90\<close> of bucket 0 and one series entry; the tick
  \<open>(60, 95)\<close> then makes the held candle \<open>95, 95, 95, 95\<close> of bucket 60 and the series
  has two entries, at the local times of bucket 0 and bucket 60. A further tick of bucket
  60 rewrites the second entry and leaves the first as it is.
\<close>

theorem three_ticks_then_bucket_transition:
  assumes "\<bar>getTimezoneOffset rt\<bar> \<le> 1440"
  shows "let st0 = st\<lparr>currentCandleRef := None, candleSeries := []\<rparr>;
       s3 = feed CANDLE_INTERVAL st0 [(rt, tick 0 100), (rt, tick 30 110), (rt, tick 59 90)];
       s4 = onmessage CANDLE_INTERVAL rt s3 (tick 60 95);
       bar0 = bar (convertToLocalTime rt (Num 0)) 100 110 90 90
   in CANDLE_INTERVAL = 60
    \<and> currentCandleRef s3 =
        Some \<lparr>agg_timestamp = 0, agg_open = 100, agg_high = 110, agg_low = 90,
              agg_close = 90, agg_lastUpdate = 59\<rparr>
    \<and> candleSeries s3 = [bar0]
    \<and> currentCandleRef s4 =
        Some \<lparr>agg_timestamp = 60, agg_open = 95, agg_high = 95, agg_low = 95,
              agg_close = 95, agg_lastUpdate = 60\<rparr>
    \<and> candleSeries s4 = [bar0, bar (convertToLocalTime rt (Num 60)) 95 95 95 95]
    \<and> (\<forall>t p. 60 \<le> t \<and> t < 120 \<longrightarrow>
          candleSeries (onmessage CANDLE_INTERVAL rt s4 (tick t p)) =
            [bar0, bar (convertToLocalTime rt (Num 60)) 95 (max 95 p) (min 95 p) p])"
proof -
  define st0 where "st0 = st\<lparr>currentCandleRef := None, candleSeries := []\<rparr>"
  define s1 where "s1 = onmessage 60 rt st0 (tick 0 100)"
  define s2 where "s2 = onmessage 60 rt s1 (tick 30 110)"
  define s3 where "s3 = onmessage 60 rt s2 (tick 59 90)"
  define s4 where "s4 = onmessage 60 rt s3 (tick 60 95)"
  define l0 where "l0 = 0 - getTimezoneOffset rt * 60"
  define l60 where "l60 = 60 - getTimezoneOffset rt * 60"
  have "\<bar>0\<bar> + \<bar>getTimezoneOffset rt\<bar> * 60 < 2 ^ 53" "\<bar>60\<bar> + \<bar>getTimezoneOffset rt\<bar> * 60 < 2 ^ 53"
    using assms by simp_all
  then have loc: "convertToLocalTime rt (Num 0) = Num l0" "convertToLocalTime rt (Num 60) = Num l60"
    by (simp_all add: convertToLocalTime_Num l0_def l60_def)
  have ne: "l60 \<noteq> l0" by (simp add: l0_def l60_def)
  have b: "getCandleTimestamp 60 0 = 0" "getCandleTimestamp 60 30 = 0"
    "getCandleTimestamp 60 59 = 0" "getCandleTimestamp 60 60 = 60"
    by (simp_all add: getCandleTimestamp_div)
  have h0: "currentCandleRef st0 = None" and c0: "candleSeries st0 = []"
    by (simp_all add: st0_def)
  have h1: "currentCandleRef s1 = Some \<lparr>agg_timestamp = 0, agg_open = 100, agg_high = 100,
              agg_low = 100, agg_close = 100, agg_lastUpdate = 0\<rparr>"
    by (simp add: s1_def onmessage_held tick_fields h0 b freshCandle_def)
  have c1: "candleSeries s1 = [bar (Num l0) 100 100 100 100]"
    using onmessage_series[OF tick_fields(1,2) h1[unfolded s1_def]]
    by (simp add: s1_def tick_fields b c0 upsertLast_Nil bar_def loc)
  have h2: "currentCandleRef s2 = Some \<lparr>agg_timestamp = 0, agg_open = 100, agg_high = 110,
              agg_low = 100, agg_close = 110, agg_lastUpdate = 30\<rparr>"
    by (simp add: s2_def onmessage_held tick_fields h1 b)
  have c2: "candleSeries s2 = [bar (Num l0) 100 110 100 110]"
    using onmessage_series[OF tick_fields(1,2) h2[unfolded s2_def]]
    by (simp add: s2_def tick_fields b c1 upsertLast_def bar_def loc)
  have h3: "currentCandleRef s3 = Some \<lparr>agg_timestamp = 0, agg_open = 100, agg_high = 110,
              agg_low = 90, agg_close = 90, agg_lastUpdate = 59\<rparr>"
    by (simp add: s3_def onmessage_held tick_fields h2 b)
  have c3: "candleSeries s3 = [bar (Num l0) 100 110 90 90]"
    using onmessage_series[OF tick_fields(1,2) h3[unfolded s3_def]]
    by (simp add: s3_def tick_fields b c2 upsertLast_def bar_def loc)
  have h4: "currentCandleRef s4 = Some \<lparr>agg_timestamp = 60, agg_open = 95, agg_high = 95,
              agg_low = 95, agg_close = 95, agg_lastUpdate = 60\<rparr>"
    by (simp add: s4_def onmessage_held tick_fields h3 b freshCandle_def)
  have c4: "candleSeries s4 = [bar (Num l0) 100 110 90 90, bar (Num l60) 95 95 95 95]"
    using onmessage_series[OF tick_fields(1,2) h4[unfolded s4_def]] ne
    by (simp add: s4_def tick_fields b c3 upsertLast_def bar_def loc)
  have c5: "candleSeries (onmessage 60 rt s4 (tick t p)) =
       [bar (Num l0) 100 110 90 90, bar (Num l60) 95 (max 95 p) (min 95 p) p]"
    if "60 \<le> t" "t < 120" for t p
  proof -
    have h5: "currentCandleRef (onmessage 60 rt s4 (tick t p)) =
        Some \<lparr>agg_timestamp = 60, agg_open = 95, agg_high = max 95 p,
              agg_low = min 95 p, agg_close = p, agg_lastUpdate = t\<rparr>"
      by (simp add: onmessage_held tick_fields h4 bucket_60_119[OF that])
    show ?thesis
      using onmessage_series[OF tick_fields(1,2) h5]
      by (simp add: tick_fields bucket_60_119[OF that] c4 upsertLast_def bar_def loc)
  qed
  have f: "feed 60 st0 [(rt, tick 0 100), (rt, tick 30 110), (rt, tick 59 90)] = s3"
    by (simp add: s1_def s2_def s3_def)
  show ?thesis
    unfolding Let_def CANDLE_INTERVAL_def st0_def[symmetric] f s4_def[symmetric] loc
    using h3 c3 h4 c4 c5 by simp
qed

theorem three_ticks_then_bucket_transition_witness:
  "let s3 = feed CANDLE_INTERVAL initial_state
              [(sample_runtime (- 120), tick 0 100), (sample_runtime (- 120), tick 30 110),
               (sample_runtime (- 120), tick 59 90)];
       s4 = onmessage CANDLE_INTERVAL (sample_runtime (- 120)) s3 (tick 60 95)
   in \<bar>getTimezoneOffset (sample_runtime (- 120))\<bar> \<le> 1440
    \<and> (60::int) \<le> 90 \<and> (90::int) < 120
    \<and> candleSeries s4 = [bar (Num 7200) 100 110 90 90, bar (Num 7260) 95 95 95 95]
    \<and> candleSeries (onmessage CANDLE_INTERVAL (sample_runtime (- 120)) s4 (tick 90 97)) =
        [bar (Num 7200) 100 110 90 90, bar (Num 7260) 95 97 95 97]"
proof -
  have st: "initial_state\<lparr>currentCandleRef := None, candleSeries := []\<rparr> = initial_state"
    by (simp add: initial_state_def)
  have off: "\<bar>getTimezoneOffset (sample_runtime (- 120))\<bar> \<le> 1440"
    by (simp add: sample_runtime_def)
  have loc: "convertToLocalTime (sample_runtime (- 120)) (Num 0) = Num 7200"
     "convertToLocalTime (sample_runtime (- 120)) (Num 60) = Num 7260"
    by (simp_all add: convertToLocalTime_Num sample_runtime_def)
  show ?thesis
    using three_ticks_then_bucket_transition[OF off, of initial_state] off
    unfolding st Let_def loc
    by (auto simp add: max_def min_def)
qed

section \<open>Historical load: properties\<close>

lemma strict_eq_iff: "strict_eq a b \<longleftrightarrow> a \<noteq> NaN \<and> a = b"
  by (cases a; cases b) auto

lemma num_lt_iff: "num_lt a b \<longleftrightarrow> a \<noteq> NaN \<and> b \<noteq> NaN \<and> the_Num a < the_Num b"
  by (cases a; cases b) auto

subsection \<open>The sort\<close>

lemma set_insert_sorted: "set (insert_sorted cmp x ys) = insert x (set ys)"
  by (induction ys) auto

lemma set_insertion_sort: "set (foldr (insert_sorted cmp) xs []) = set xs"
  by (induction xs) (auto simp add: set_insert_sorted)

lemma set_Array_sort:
  assumes "sort_permutes rt"
  shows "set (Array_sort rt cmp xs) = set xs"
proof (cases "list_all (\<lambda>a. list_all (\<lambda>b. cmp a b \<noteq> NaN) xs) xs")
  case True
  then show ?thesis by (simp add: Array_sort_def set_insertion_sort)
next
  case False
  have "set (sort_inconsistent rt (map (\<lambda>a. map (cmp a) xs) xs)) = {..<length xs}"
    using assms by (simp add: sort_permutes_def)
  then have "set (map (\<lambda>i. xs ! i) (sort_inconsistent rt (map (\<lambda>a. map (cmp a) xs) xs)))
      = (\<lambda>i. xs ! i) ` {..<length xs}"
    by simp
  also have "\<dots> = set xs"
    by (auto simp add: set_conv_nth)
  finally show ?thesis using False by (simp add: Array_sort_def)
qed

lemma insert_sorted_insort_key:
  assumes "tm x \<noteq> NaN" and "\<forall>y\<in>set ys. tm y \<noteq> NaN"
  shows "insert_sorted (\<lambda>a b. num_sub (tm a) (tm b)) x ys = insort_key (\<lambda>c. the_Num (tm c)) x ys"
  using assms
proof (induction ys)
  case Nil
  then show ?case by simp
next
  case (Cons y ys)
  obtain a b where "tm x = Num a" "tm y = Num b"
    using Cons.prems by (cases "tm x"; cases "tm y") auto
  then show ?case using Cons by (simp add: dbl_nonpos_iff)
qed

lemma insertion_sort_sort_key:
  assumes "\<forall>x\<in>set xs. tm x \<noteq> NaN"
  shows "foldr (insert_sorted (\<lambda>a b. num_sub (tm a) (tm b))) xs []
       = sort_key (\<lambda>c. the_Num (tm c)) xs"
  using assms
proof (induction xs)
  case Nil
  then show ?case by simp
next
  case (Cons x xs)
  have "foldr (insert_sorted (\<lambda>a b. num_sub (tm a) (tm b))) (x # xs) []
      = insert_sorted (\<lambda>a b. num_sub (tm a) (tm b)) x (sort_key (\<lambda>c. the_Num (tm c)) xs)"
    using Cons by simp
  also have "\<dots> = insort_key (\<lambda>c. the_Num (tm c)) x (sort_key (\<lambda>c. the_Num (tm c)) xs)"
    using Cons.prems by (intro insert_sorted_insort_key) auto
  finally show ?case by simp
qed

text \<open>When all times are proper no comparison is \<^verbatim>\<open>NaN\<close>, and the sort is the stable
  sort by time.\<close>

lemma sortByTime_sort_key:
  assumes "\<forall>x\<in>set xs. tm x \<noteq> NaN"
  shows "sortByTime rt tm xs = sort_key (\<lambda>c. the_Num (tm c)) xs"
proof -
  have "num_sub (tm a) (tm b) \<noteq> NaN" if "a \<in> set xs" "b \<in> set xs" for a b
    using assms that by (cases "tm a"; cases "tm b") auto
  then have "list_all (\<lambda>a. list_all (\<lambda>b. num_sub (tm a) (tm b) \<noteq> NaN) xs) xs"
    by (simp add: list_all_iff)
  then show ?thesis
    by (simp add: sortByTime_def Array_sort_def insertion_sort_sort_key[OF assms])
qed

subsection \<open>The filter\<close>

lemma findIndex_prefix:
  "findIndex P (pre @ y # ys) = int (length pre) \<longleftrightarrow> P y \<and> \<not> list_ex P pre"
proof (cases "list_ex P pre")
  case True
  then obtain p where "p \<in> set pre" "P p" by (auto simp add: list_ex_iff)
  then have tw: "takeWhile (\<lambda>x. \<not> P x) (pre @ y # ys) = takeWhile (\<lambda>x. \<not> P x) pre"
    by simp
  have "takeWhile (\<lambda>x. \<not> P x) pre \<noteq> pre"
    using \<open>p \<in> set pre\<close> \<open>P p\<close> by auto
  then have "length (takeWhile (\<lambda>x. \<not> P x) pre) \<noteq> length pre"
    by (metis takeWhile_eq_take take_all order_refl)
  then have "length (takeWhile (\<lambda>x. \<not> P x) (pre @ y # ys)) < length pre"
    using length_takeWhile_le[of "\<lambda>x. \<not> P x" pre] tw by simp
  then show ?thesis using True by (auto simp add: findIndex_def)
next
  case False
  then have np: "\<forall>p\<in>set pre. \<not> P p" by (auto simp add: list_ex_iff)
  then have tw: "takeWhile (\<lambda>x. \<not> P x) (pre @ y # ys) = pre @ takeWhile (\<lambda>x. \<not> P x) (y # ys)"
    by simp
  show ?thesis
  proof (cases "P y")
    case True
    then show ?thesis using False tw by (simp add: findIndex_def list_ex_iff)
  next
    case False
    then show ?thesis using \<open>\<not> list_ex P pre\<close> tw by (simp add: findIndex_def)
  qed
qed

lemma filter_from_firstsByTime:
  assumes "self = pre @ ys"
  shows "map fst (filter (\<lambda>(item, index).
        index = findIndex (\<lambda>t. strict_eq (tm t) (tm item)) self)
      (zip ys (map int [length pre..<length pre + length ys])))
   = firstsByTime tm pre ys"
  using assms
proof (induction ys arbitrary: pre)
  case Nil
  then show ?case by simp
next
  case (Cons y ys)
  define F where "F = (\<lambda>(item, index).
        index = findIndex (\<lambda>t. strict_eq (tm t) (tm item)) self)"
  have upt: "[length pre..<length pre + length (y # ys)]
      = length pre # [length (pre @ [y])..<length (pre @ [y]) + length ys]"
    using upt_conv_Cons[of "length pre" "length pre + Suc (length ys)"] by simp
  have IH: "map fst (filter F (zip ys (map int [length (pre @ [y])..<length (pre @ [y]) + length ys])))
      = firstsByTime tm (pre @ [y]) ys"
    unfolding F_def using Cons.IH[of "pre @ [y]"] Cons.prems by simp
  have head: "F (y, int (length pre)) \<longleftrightarrow>
      strict_eq (tm y) (tm y) \<and> \<not> list_ex (\<lambda>s. strict_eq (tm s) (tm y)) pre"
    unfolding F_def
    using findIndex_prefix[of "\<lambda>t. strict_eq (tm t) (tm y)" pre y ys] Cons.prems by auto
  have "map fst (filter F (zip (y # ys) (map int [length pre..<length pre + length (y # ys)])))
      = firstsByTime tm pre (y # ys)"
    unfolding upt list.map zip_Cons_Cons filter.simps
    using IH head by simp
  then show ?case unfolding F_def .
qed

lemma keepFirstByTime_firsts: "keepFirstByTime tm xs = firstsByTime tm [] xs"
  using filter_from_firstsByTime[of xs "[]" xs tm]
  by (simp add: keepFirstByTime_def Array_filter_def)

subsection \<open>First occurrences in a sorted batch\<close>

lemma firstsByTime_subset: "set (firstsByTime tm seen ys) \<subseteq> set ys"
  by (induction ys arbitrary: seen) auto

lemma firstsByTime_fresh:
  "z \<in> set (firstsByTime tm seen ys) \<Longrightarrow>
     tm z \<noteq> NaN \<and> (\<forall>s\<in>set seen. \<not> strict_eq (tm s) (tm z))"
proof (induction ys arbitrary: seen)
  case Nil
  then show ?case by simp
next
  case (Cons y ys)
  then show ?case
    by (fastforce simp add: list_ex_iff strict_eq_iff split: if_splits)
qed

lemma firstsByTime_times:
  "tm ` set (firstsByTime tm seen ys) = {t \<in> tm ` set ys. t \<noteq> NaN \<and> t \<notin> tm ` set seen}"
proof (induction ys arbitrary: seen)
  case Nil
  then show ?case by simp
next
  case (Cons y ys)
  show ?case
    by (auto simp add: Cons.IH list_ex_iff strict_eq_iff image_iff)
qed

lemma firstsByTime_increasing:
  assumes "sorted (map (\<lambda>c. the_Num (tm c)) ys)"
  shows "sorted_wrt (\<lambda>a b. num_lt (tm a) (tm b)) (firstsByTime tm seen ys)"
  using assms
proof (induction ys arbitrary: seen)
  case Nil
  then show ?case by simp
next
  case (Cons y ys)
  have rest: "sorted_wrt (\<lambda>a b. num_lt (tm a) (tm b)) (firstsByTime tm (seen @ [y]) ys)"
    using Cons by simp
  have above: "num_lt (tm y) (tm z)"
    if "z \<in> set (firstsByTime tm (seen @ [y]) ys)" and "strict_eq (tm y) (tm y)" for z
  proof -
    have "z \<in> set ys" using that(1) firstsByTime_subset by fastforce
    then have le: "the_Num (tm y) \<le> the_Num (tm z)" using Cons.prems by auto
    have "tm z \<noteq> NaN" "\<not> strict_eq (tm y) (tm z)"
      using firstsByTime_fresh[OF that(1)] by auto
    moreover have "tm y \<noteq> NaN" using that(2) by (simp add: strict_eq_iff)
    ultimately show ?thesis
      using le by (cases "tm y"; cases "tm z") auto
  qed
  show ?case using rest above by auto
qed

lemma filter_firstsByTime:
  "filter (\<lambda>c. tm c = Num k) (firstsByTime tm seen ys) =
     (if list_ex (\<lambda>s. tm s = Num k) seen then []
      else case find (\<lambda>c. tm c = Num k) ys of None \<Rightarrow> [] | Some c \<Rightarrow> [c])"
proof (induction ys arbitrary: seen)
  case Nil
  then show ?case by simp
next
  case (Cons y ys)
  show ?case
    by (auto simp add: Cons.IH list_ex_iff strict_eq_iff)
qed

lemma find_filter: "find P xs = (case filter P xs of [] \<Rightarrow> None | x # _ \<Rightarrow> Some x)"
  by (induction xs) auto

lemma find_sort_key: "find (\<lambda>c. f c = k) (sort_key f xs) = find (\<lambda>c. f c = k) xs"
  by (simp add: find_filter sort_key_stable)

lemma normalized_increasing:
  assumes "\<forall>x\<in>set xs. tm x \<noteq> NaN"
  shows "sorted_wrt (\<lambda>a b. num_lt (tm a) (tm b)) (keepFirstByTime tm (sortByTime rt tm xs))"
  unfolding keepFirstByTime_firsts sortByTime_sort_key[OF assms]
  by (intro firstsByTime_increasing) (simp add: sorted_sort_key)

lemma normalized_first_wins:
  assumes "\<forall>x\<in>set xs. tm x \<noteq> NaN"
  shows "filter (\<lambda>c. tm c = Num k) (keepFirstByTime tm (sortByTime rt tm xs)) =
     (case find (\<lambda>c. tm c = Num k) xs of None \<Rightarrow> [] | Some c \<Rightarrow> [c])"
proof -
  let ?key = "\<lambda>c. the_Num (tm c)"
  have same: "(tm x = Num k) = (?key x = k)" if "x \<in> set xs" for x
    using assms that by (cases "tm x") auto
  have "find (\<lambda>c. tm c = Num k) (sort_key ?key xs) = find (\<lambda>c. ?key c = k) (sort_key ?key xs)"
    by (rule find_cong) (simp_all add: same)
  also have "\<dots> = find (\<lambda>c. ?key c = k) xs"
    by (rule find_sort_key)
  also have "\<dots> = find (\<lambda>c. tm c = Num k) xs"
    by (rule find_cong) (simp_all add: same)
  finally show ?thesis
    unfolding keepFirstByTime_firsts sortByTime_sort_key[OF assms]
    by (simp add: filter_firstsByTime)
qed

lemma normalized_times:
  assumes "sort_permutes rt"
  shows "tm ` set (keepFirstByTime tm (sortByTime rt tm xs)) = {t \<in> tm ` set xs. t \<noteq> NaN}"
  by (simp add: keepFirstByTime_firsts firstsByTime_times sortByTime_def set_Array_sort[OF assms])

lemma normalized_subset:
  assumes "sort_permutes rt"
  shows "set (keepFirstByTime tm (sortByTime rt tm xs)) \<subseteq> set xs"
  using firstsByTime_subset[of tm "[]" "sortByTime rt tm xs"]
  by (simp add: keepFirstByTime_firsts sortByTime_def set_Array_sort[OF assms])

subsection \<open>The two outcomes of a decoded response\<close>

lemma load_no_values:
  assumes "rs_values data = None \<or> rs_values data = Some []"
  shows "loadHistoricalData rt (Resolved data) st =
     st\<lparr>status := ''Error'',
        errorMessage := js_or (js_or (rs_message data) (rs_code data))
                          (Some (Str ''No data available''))\<rparr>"
  using assms by (auto simp add: loadHistoricalData_def)

lemma load_values:
  assumes "rs_values data = Some vs" and "vs \<noteq> []"
  shows "loadHistoricalData rt (Resolved data) st =
     (let candles = normalizedCandles rt vs;
          st3 = st\<lparr>status := ''Connecting to live data...'', errorMessage := None,
                   candleSeries := candles, sinkCalls := sinkCalls st @ [SetData candles],
                   isHistoricalLoaded := True\<rparr>
      in if candles \<noteq> [] then st3\<lparr>currentPrice := Some (cd_close (last candles))\<rparr> else st3)"
  using assms by (simp add: loadHistoricalData_def candleSeriesRef_setData_def Let_def)

lemma load_values_fields:
  assumes "rs_values data = Some vs" and "vs \<noteq> []"
  shows "status (loadHistoricalData rt (Resolved data) st) = ''Connecting to live data...''"
    and "errorMessage (loadHistoricalData rt (Resolved data) st) = None"
    and "isHistoricalLoaded (loadHistoricalData rt (Resolved data) st)"
    and "candleSeries (loadHistoricalData rt (Resolved data) st) = normalizedCandles rt vs"
    and "volumeSeries (loadHistoricalData rt (Resolved data) st) = volumeSeries st"
    and "sinkCalls (loadHistoricalData rt (Resolved data) st) =
           sinkCalls st @ [SetData (normalizedCandles rt vs)]"
  by (simp_all add: load_values[OF assms] Let_def)

text \<open>
  Claim C5. When the response has no \<^verbatim>\<open>values\<close> or an empty \<^verbatim>\<open>values\<close> array (an
  error payload has none), the load ends in the error state: the status is \<^verbatim>\<open>Error\<close>,
  the error message is the upstream message when it is truthy, otherwise the upstream
  code when it is truthy, otherwise \<^verbatim>\<open>No data available\<close>; no call is made on a
  series, and the series data and everything else in the state stay as they were.
\<close>

theorem empty_or_error_payload:
  assumes "rs_values data = None \<or> rs_values data = Some []"
  shows "loadHistoricalData rt (Resolved data) st =
           st\<lparr>status := ''Error'',
              errorMessage :=
                (if truthy (rs_message data) then rs_message data
                 else if truthy (rs_code data) then rs_code data
                 else Some (Str ''No data available''))\<rparr>
       \<and> status (loadHistoricalData rt (Resolved data) st) = ''Error''
       \<and> candleSeries (loadHistoricalData rt (Resolved data) st) = candleSeries st
       \<and> volumeSeries (loadHistoricalData rt (Resolved data) st) = volumeSeries st
       \<and> sinkCalls (loadHistoricalData rt (Resolved data) st) = sinkCalls st
       \<and> isHistoricalLoaded (loadHistoricalData rt (Resolved data) st) = isHistoricalLoaded st"
  by (simp add: load_no_values[OF assms] js_or_def)

theorem empty_or_error_payload_witness:
  "rs_values \<lparr>rs_values = None, rs_message = None, rs_code = Some (Str ''400'')\<rparr> = None
   \<and> loadHistoricalData (sample_runtime 0)
        (Resolved \<lparr>rs_values = None, rs_message = None, rs_code = Some (Str ''400'')\<rparr>)
        (initial_state\<lparr>candleSeries := [bar (Num 60) 1 2 0 1]\<rparr>)
      = initial_state\<lparr>candleSeries := [bar (Num 60) 1 2 0 1], status := ''Error'',
                       errorMessage := Some (Str ''400'')\<rparr>
   \<and> rs_values \<lparr>rs_values = Some [], rs_message = Some (Str ''no data''), rs_code = Some (Number 400)\<rparr> = Some []
   \<and> loadHistoricalData (sample_runtime 0)
        (Resolved \<lparr>rs_values = Some [], rs_message = Some (Str ''no data''), rs_code = Some (Number 400)\<rparr>)
        initial_state
      = initial_state\<lparr>status := ''Error'', errorMessage := Some (Str ''no data'')\<rparr>"
  using empty_or_error_payload[of "\<lparr>rs_values = None, rs_message = None, rs_code = Some (Str ''400'')\<rparr>"
          "sample_runtime 0" "initial_state\<lparr>candleSeries := [bar (Num 60) 1 2 0 1]\<rparr>"]
        empty_or_error_payload[of "\<lparr>rs_values = Some [], rs_message = Some (Str ''no data''), rs_code = Some (Number 400)\<rparr>"
          "sample_runtime 0" initial_state]
  by simp

subsection \<open>Ordering and duplicates\<close>

lemma toCandle_time_NaN:
  "cd_time (toCandle rt v) = NaN \<longleftrightarrow> Date_parse rt (td_datetime v @ ''Z'') = NaN"
  by (cases "Date_parse rt (td_datetime v @ ''Z'')")
     (simp_all add: toCandle_def convertToLocalTime_def Let_def)

lemma toVolume_time: "hd_time (toVolume rt v) = cd_time (toCandle rt v)"
  by (simp add: toVolume_def toCandle_def Let_def)

lemma increasing_distinct:
  "sorted_wrt (\<lambda>a b. num_lt (tm a) (tm b)) xs \<Longrightarrow> distinct (map tm xs)"
  by (induction xs) (auto simp add: num_lt_iff)

lemma normalized_one_per_time:
  assumes "\<forall>x\<in>set xs. tm x \<noteq> NaN" and "j < length xs"
  shows "\<exists>i\<le>j. tm (xs ! i) = tm (xs ! j) \<and> (\<forall>m<i. tm (xs ! m) \<noteq> tm (xs ! j))
          \<and> filter (\<lambda>c. tm c = tm (xs ! j)) (keepFirstByTime tm (sortByTime rt tm xs)) = [xs ! i]"
proof -
  obtain k where k: "tm (xs ! j) = Num k"
    using assms by (cases "tm (xs ! j)") auto
  have "find (\<lambda>c. tm c = Num k) xs \<noteq> None"
    using nth_mem[OF assms(2)] k by (auto simp add: find_None_iff)
  then obtain x where x: "find (\<lambda>c. tm c = Num k) xs = Some x" by auto
  then obtain i where i: "i < length xs" "tm (xs ! i) = Num k" "x = xs ! i"
      "\<forall>m<i. tm (xs ! m) \<noteq> Num k"
    by (auto simp add: find_Some_iff)
  have "i \<le> j"
  proof (rule ccontr)
    assume "\<not> i \<le> j"
    then have "j < i" by simp
    then show False using i(4) k by auto
  qed
  moreover have "filter (\<lambda>c. tm c = tm (xs ! j)) (keepFirstByTime tm (sortByTime rt tm xs)) = [xs ! i]"
    unfolding k normalized_first_wins[OF assms(1)] x i(3) by simp
  ultimately show ?thesis using i k by auto
qed

text \<open>
  Claim C6, amended. For every batch of historical records whose datetimes all parse, the
  normalized candles and the normalized volumes are strictly increasing by time, with no
  time repeated; records with the same datetime have the same time; and for every record
  exactly one normalized candle (and one volume) has its time, namely the one made from
  the record of the lowest array index that has this time.
\<close>

theorem parsed_batch_increasing_first_wins:
  assumes "\<forall>v\<in>set vs. Date_parse rt (td_datetime v @ ''Z'') \<noteq> NaN"
  shows "sorted_wrt (\<lambda>a b. num_lt (cd_time a) (cd_time b)) (normalizedCandles rt vs)
       \<and> sorted_wrt (\<lambda>a b. num_lt (hd_time a) (hd_time b)) (normalizedVolumes rt vs)
       \<and> distinct (map cd_time (normalizedCandles rt vs))
       \<and> distinct (map hd_time (normalizedVolumes rt vs))
       \<and> (\<forall>i<length vs. \<forall>j<length vs. td_datetime (vs ! i) = td_datetime (vs ! j) \<longrightarrow>
            cd_time (toCandle rt (vs ! i)) = cd_time (toCandle rt (vs ! j)))
       \<and> (\<forall>j<length vs. \<exists>i\<le>j.
            cd_time (toCandle rt (vs ! i)) = cd_time (toCandle rt (vs ! j))
            \<and> (\<forall>m<i. cd_time (toCandle rt (vs ! m)) \<noteq> cd_time (toCandle rt (vs ! j)))
            \<and> filter (\<lambda>c. cd_time c = cd_time (toCandle rt (vs ! j))) (normalizedCandles rt vs)
                = [toCandle rt (vs ! i)])
       \<and> (\<forall>j<length vs. \<exists>i\<le>j.
            hd_time (toVolume rt (vs ! i)) = hd_time (toVolume rt (vs ! j))
            \<and> (\<forall>m<i. hd_time (toVolume rt (vs ! m)) \<noteq> hd_time (toVolume rt (vs ! j)))
            \<and> filter (\<lambda>b. hd_time b = hd_time (toVolume rt (vs ! j))) (normalizedVolumes rt vs)
                = [toVolume rt (vs ! i)])"
proof -
  have cs: "\<forall>c\<in>set (map (toCandle rt) vs). cd_time c \<noteq> NaN"
    using assms by (simp add: toCandle_time_NaN)
  have hs: "\<forall>b\<in>set (map (toVolume rt) vs). hd_time b \<noteq> NaN"
    using assms by (simp add: toVolume_time toCandle_time_NaN)
  have c1: "sorted_wrt (\<lambda>a b. num_lt (cd_time a) (cd_time b)) (normalizedCandles rt vs)"
    unfolding normalizedCandles_def by (rule normalized_increasing[OF cs])
  have v1: "sorted_wrt (\<lambda>a b. num_lt (hd_time a) (hd_time b)) (normalizedVolumes rt vs)"
    unfolding normalizedVolumes_def by (rule normalized_increasing[OF hs])
  have same: "\<forall>i<length vs. \<forall>j<length vs. td_datetime (vs ! i) = td_datetime (vs ! j) \<longrightarrow>
            cd_time (toCandle rt (vs ! i)) = cd_time (toCandle rt (vs ! j))"
    by (simp add: toCandle_def)
  have c2: "\<exists>i\<le>j.
            cd_time (toCandle rt (vs ! i)) = cd_time (toCandle rt (vs ! j))
            \<and> (\<forall>m<i. cd_time (toCandle rt (vs ! m)) \<noteq> cd_time (toCandle rt (vs ! j)))
            \<and> filter (\<lambda>c. cd_time c = cd_time (toCandle rt (vs ! j))) (normalizedCandles rt vs)
                = [toCandle rt (vs ! i)]" if "j < length vs" for j
  proof -
    have jl: "j < length (map (toCandle rt) vs)" using that by simp
    obtain i where i: "i \<le> j" "cd_time (map (toCandle rt) vs ! i) = cd_time (map (toCandle rt) vs ! j)"
       "\<forall>m<i. cd_time (map (toCandle rt) vs ! m) \<noteq> cd_time (map (toCandle rt) vs ! j)"
       "filter (\<lambda>c. cd_time c = cd_time (map (toCandle rt) vs ! j))
           (keepFirstByTime cd_time (sortByTime rt cd_time (map (toCandle rt) vs))) = [map (toCandle rt) vs ! i]"
      using normalized_one_per_time[OF cs jl, of rt] by blast
    show ?thesis
      using i that by (intro exI[of _ i]) (simp add: normalizedCandles_def)
  qed
  have v2: "\<exists>i\<le>j.
            hd_time (toVolume rt (vs ! i)) = hd_time (toVolume rt (vs ! j))
            \<and> (\<forall>m<i. hd_time (toVolume rt (vs ! m)) \<noteq> hd_time (toVolume rt (vs ! j)))
            \<and> filter (\<lambda>b. hd_time b = hd_time (toVolume rt (vs ! j))) (normalizedVolumes rt vs)
                = [toVolume rt (vs ! i)]" if "j < length vs" for j
  proof -
    have jl: "j < length (map (toVolume rt) vs)" using that by simp
    obtain i where i: "i \<le> j" "hd_time (map (toVolume rt) vs ! i) = hd_time (map (toVolume rt) vs ! j)"
       "\<forall>m<i. hd_time (map (toVolume rt) vs ! m) \<noteq> hd_time (map (toVolume rt) vs ! j)"
       "filter (\<lambda>c. hd_time c = hd_time (map (toVolume rt) vs ! j))
           (keepFirstByTime hd_time (sortByTime rt hd_time (map (toVolume rt) vs))) = [map (toVolume rt) vs ! i]"
      using normalized_one_per_time[OF hs jl, of rt] by blast
    show ?thesis
      using i that by (intro exI[of _ i]) (simp add: normalizedVolumes_def)
  qed
  show ?thesis
    using c1 v1 increasing_distinct[OF c1] increasing_distinct[OF v1] same c2 v2 by blast
qed

lemma sample_values_candles:
  "normalizedCandles (sample_runtime 0) sample_values
     = [bar (Num 1704067200) 100 110 90 90, bar (Num 1704067260) 100 110 90 105]"
  by code_simp

lemma sample_values_volumes:
  "normalizedVolumes (sample_runtime 0) sample_values
     = [\<lparr>hd_time = Num 1704067200, hd_value = Num 12.5, hd_color = ''rgba(239, 83, 80, 0.5)''\<rparr>,
        \<lparr>hd_time = Num 1704067260, hd_value = Num 12.5, hd_color = ''rgba(38, 166, 154, 0.5)''\<rparr>]"
  by code_simp

lemma sample_values_parse:
  "\<forall>v\<in>set sample_values. Date_parse (sample_runtime 0) (td_datetime v @ ''Z'') \<noteq> NaN"
  by code_simp

theorem parsed_batch_increasing_first_wins_witness:
  "list_all (\<lambda>v. Date_parse (sample_runtime 0) (td_datetime v @ ''Z'') \<noteq> NaN) sample_values
   \<and> td_datetime (sample_values ! 0) = td_datetime (sample_values ! 2)
   \<and> sorted_wrt (\<lambda>a b. num_lt (cd_time a) (cd_time b))
        (normalizedCandles (sample_runtime 0) sample_values)
   \<and> distinct (map cd_time (normalizedCandles (sample_runtime 0) sample_values))
   \<and> normalizedCandles (sample_runtime 0) sample_values
        = [toCandle (sample_runtime 0) (sample_values ! 1),
           toCandle (sample_runtime 0) (sample_values ! 0)]"
proof -
  note T = parsed_batch_increasing_first_wins[OF sample_values_parse]
  have a: "sorted_wrt (\<lambda>a b. num_lt (cd_time a) (cd_time b))
        (normalizedCandles (sample_runtime 0) sample_values)"
    using T by blast
  have b: "distinct (map cd_time (normalizedCandles (sample_runtime 0) sample_values))"
    using T by blast
  have c: "td_datetime (sample_values ! 0) = td_datetime (sample_values ! 2)"
    by code_simp
  have d: "normalizedCandles (sample_runtime 0) sample_values
        = [toCandle (sample_runtime 0) (sample_values ! 1),
           toCandle (sample_runtime 0) (sample_values ! 0)]"
    by code_simp
  show ?thesis unfolding list_all_iff using sample_values_parse a b c d by blast
qed

text \<open>
  Claim C6 as stated fails when datetimes do not parse: of two records with the same
  unparsable datetime none is retained, because \<^verbatim>\<open>NaN === NaN\<close> is false and
  \<^verbatim>\<open>findIndex\<close> finds no element with the record's time.
\<close>

theorem duplicate_unparsable_datetime_counterexample:
  "td_datetime (values_twice_unparsable_datetime ! 0) = td_datetime (values_twice_unparsable_datetime ! 1)
   \<and> Date_parse (sample_runtime 0) (td_datetime (values_twice_unparsable_datetime ! 0) @ ''Z'') = NaN
   \<and> normalizedCandles (sample_runtime 0) values_twice_unparsable_datetime = []
   \<and> normalizedVolumes (sample_runtime 0) values_twice_unparsable_datetime = []"
  by code_simp

subsection \<open>Unparsable fields\<close>

text \<open>
  Claim C4 as stated fails: with one good record and one record whose datetime does not
  parse, the load does not end in the error state, and the series receives the candle of
  the good record alone.
\<close>

theorem unparsable_record_counterexample:
  "Date_parse (sample_runtime 0) (td_datetime (values_with_unparsable_datetime ! 1) @ ''Z'') = NaN
   \<and> status (loadHistoricalData (sample_runtime 0)
        (Resolved (values_response values_with_unparsable_datetime)) initial_state)
      = ''Connecting to live data...''
   \<and> errorMessage (loadHistoricalData (sample_runtime 0)
        (Resolved (values_response values_with_unparsable_datetime)) initial_state) = None
   \<and> candleSeries (loadHistoricalData (sample_runtime 0)
        (Resolved (values_response values_with_unparsable_datetime)) initial_state)
      = [bar (Num 1704067200) 100 110 90 105]"
  by code_simp

text \<open>
  Claim C4, amended. A record whose timestamp does not parse does not make normalization
  fail with a parse error. For every non-empty \<^verbatim>\<open>values\<close> array normalization produces
  a candle sequence and the load calls \<^verbatim>\<open>setData\<close> with it. Each of its candles is the
  candle of a record of the batch; its times are the times of the records that are not
  \<^verbatim>\<open>NaN\<close>, so a record whose timestamp does not parse is left out and the candles of the
  records whose timestamps parse are handed on: a part of the records. This holds for
  every order the engine's sort gives the array. Nothing is said of a numeric field that
  does not parse, nor of what the chart library does with the sequence.
\<close>

theorem unparsable_timestamp_record_dropped:
  assumes "sort_permutes rt" and "rs_values data = Some vs" and "vs \<noteq> []"
  shows "sinkCalls (loadHistoricalData rt (Resolved data) st)
           = sinkCalls st @ [SetData (normalizedCandles rt vs)]
       \<and> set (normalizedCandles rt vs) \<subseteq> toCandle rt ` set vs
       \<and> cd_time ` set (normalizedCandles rt vs)
           = {t \<in> (\<lambda>v. cd_time (toCandle rt v)) ` set vs. t \<noteq> NaN}
       \<and> (\<forall>v\<in>set vs.
            (cd_time (toCandle rt v) = NaN) = (Date_parse rt (td_datetime v @ ''Z'') = NaN))"
proof -
  have sub: "set (normalizedCandles rt vs) \<subseteq> toCandle rt ` set vs"
    using normalized_subset[OF assms(1), of cd_time "map (toCandle rt) vs"]
    by (simp add: normalizedCandles_def)
  have times: "cd_time ` set (normalizedCandles rt vs)
           = {t \<in> (\<lambda>v. cd_time (toCandle rt v)) ` set vs. t \<noteq> NaN}"
    using normalized_times[OF assms(1), of cd_time "map (toCandle rt) vs"]
    by (simp add: normalizedCandles_def image_image)
  have fields: "\<forall>v\<in>set vs.
            (cd_time (toCandle rt v) = NaN) = (Date_parse rt (td_datetime v @ ''Z'') = NaN)"
    by (simp add: toCandle_time_NaN)
  show ?thesis
    using load_values_fields(6)[OF assms(2,3), of rt st] sub times fields by blast
qed

theorem unparsable_timestamp_record_dropped_witness:
  "sort_permutes (sample_runtime 0)
   \<and> rs_values (values_response values_with_unparsable_datetime) = Some values_with_unparsable_datetime
   \<and> values_with_unparsable_datetime \<noteq> []
   \<and> sinkCalls (loadHistoricalData (sample_runtime 0)
        (Resolved (values_response values_with_unparsable_datetime)) initial_state)
       = sinkCalls initial_state
         @ [SetData (normalizedCandles (sample_runtime 0) values_with_unparsable_datetime)]
   \<and> cd_time ` set (normalizedCandles (sample_runtime 0) values_with_unparsable_datetime)
       = {t \<in> (\<lambda>v. cd_time (toCandle (sample_runtime 0) v)) ` set values_with_unparsable_datetime.
            t \<noteq> NaN}"
proof -
  have p: "sort_permutes (sample_runtime 0)"
    by (simp add: sort_permutes_def sample_runtime_def lessThan_atLeast0)
  have a: "rs_values (values_response values_with_unparsable_datetime) = Some values_with_unparsable_datetime"
    by (simp add: values_response_def)
  have b: "values_with_unparsable_datetime \<noteq> []" by (simp add: values_with_unparsable_datetime_def)
  show ?thesis
    using unparsable_timestamp_record_dropped[OF p a b, of initial_state] p a b
    by blast
qed

subsection \<open>What the series receive\<close>

text \<open>
  Claim C8 as stated fails: after a successful load the volume series holds nothing and
  the only call made is \<^verbatim>\<open>setData\<close> on the candle series, although the normalized
  volumes are not empty.
\<close>

theorem volumes_delivered_counterexample:
  "isHistoricalLoaded (loadHistoricalData (sample_runtime 0)
        (Resolved (values_response sample_values)) initial_state)
   \<and> normalizedVolumes (sample_runtime 0) sample_values \<noteq> []
   \<and> volumeSeries (loadHistoricalData (sample_runtime 0)
        (Resolved (values_response sample_values)) initial_state) = []
   \<and> sinkCalls (loadHistoricalData (sample_runtime 0)
        (Resolved (values_response sample_values)) initial_state)
      = [SetData [bar (Num 1704067200) 100 110 90 90, bar (Num 1704067260) 100 110 90 105]]"
  by code_simp

text \<open>
  Claim C8, amended. After a successful historical load the normalized candles are handed
  to the candle series as a full replacement, by the one call the load makes; the
  normalized volumes are computed and not delivered, and the volume series keeps its data.
\<close>

theorem only_candles_delivered:
  assumes "rs_values data = Some vs" and "vs \<noteq> []"
  shows "isHistoricalLoaded (loadHistoricalData rt (Resolved data) st)
       \<and> sinkCalls (loadHistoricalData rt (Resolved data) st)
           = sinkCalls st @ [SetData (normalizedCandles rt vs)]
       \<and> candleSeries (loadHistoricalData rt (Resolved data) st) = normalizedCandles rt vs
       \<and> volumeSeries (loadHistoricalData rt (Resolved data) st) = volumeSeries st"
  by (simp add: load_values_fields[OF assms])

theorem only_candles_delivered_witness:
  "rs_values (values_response sample_values) = Some sample_values
   \<and> sample_values \<noteq> []
   \<and> sinkCalls (loadHistoricalData (sample_runtime (- 120))
        (Resolved (values_response sample_values)) initial_state)
       = sinkCalls initial_state @ [SetData (normalizedCandles (sample_runtime (- 120)) sample_values)]
   \<and> volumeSeries (loadHistoricalData (sample_runtime (- 120))
        (Resolved (values_response sample_values)) initial_state) = volumeSeries initial_state"
proof -
  have a: "rs_values (values_response sample_values) = Some sample_values"
    by (simp add: values_response_def)
  have b: "sample_values \<noteq> []" by (simp add: sample_values_def)
  show ?thesis
    using only_candles_delivered[OF a b, of "sample_runtime (- 120)" initial_state] a b by blast
qed

end
